theory Spec2Isabelle
  imports Main "HOL-Library.AList" "HOL-Library.Sublist"
begin

section \<open>Data model of the service worker in \<open>src/assets/js/main.js\<close>\<close>

text \<open>
  A response as the worker observes it: the status code, the status text, the headers
  and the body. \<open>ok\<close> is the \<open>Response.ok\<close> getter of the Fetch standard: the status
  lies in 200..299.
\<close>

record response =
  status :: nat
  statusText :: string
  headers :: "(string \<times> string) list"
  body :: string

definition ok :: "response \<Rightarrow> bool" where
  "ok r = (200 \<le> status r \<and> status r \<le> 299)"

text \<open>
  A request that reached \<open>handleRequest\<close>: its URL (the identity under which the Cache
  API stores and matches it), the path of that URL (\<open>new URL(request.url).pathname\<close>),
  its method and its mode (the string \<open>navigate\<close> for a full-page navigation). The
  first fetch listener (lines 931-946) hands on only GET requests over HTTP(S); the
  second (lines 1270-1285) hands on every request, so the method and the scheme of the
  URL are not restricted. URLs are compared as strings; a URL of the worker's own origin
  is written from the path on, as the source writes \<open>/offline.html\<close>, the runtime
  resolving both forms to the same key.
\<close>

record request =
  url :: string
  pathname :: string
  rmethod :: string
  mode :: string

text \<open>
  What an \<open>async\<close> function of the worker hands to its caller: it resolves with a
  response, it resolves with \<open>undefined\<close>, or it rejects with an error.
\<close>

datatype js_response = Undefined | Response response

datatype error = NetworkError | TypeError | InvalidStateError

text \<open>A record of the \<open>failed-requests\<close> object store (key path \<open>id\<close>).\<close>

record request_data =
  entry_id :: nat
  entry_url :: string
  options :: "(string \<times> string) list"
  timestamp :: nat

text \<open>
  Every operation on the network, the cache storage and the object store is appended to
  a trace, in the order in which the worker issues it.
\<close>

datatype event =
    Fetch string
  | CacheOpen string
  | CacheMatch string string
  | CachePut string string
  | CacheDelete string
  | StoreDelete nat

type_synonym partition = "(string \<times> response) list"

text \<open>
  The state the worker reads and writes: the cache storage (the named partitions in
  creation order, each a list of URL/response pairs in insertion order), the trace, the
  \<open>failed-requests\<close> store, whether \<open>indexedDB.open\<close> succeeds, and the two lifecycle
  signals \<open>self.skipWaiting()\<close> and \<open>self.clients.claim()\<close>.
\<close>

record sw_state =
  caches :: "(string \<times> partition) list"
  trace :: "event list"
  failed_requests :: "request_data list"
  idb_available :: bool
  skip_waiting :: bool
  clients_claimed :: bool

text \<open>
  The network is outside the worker. It is a parameter: at the \<open>n\<close>-th request issued so
  far, for a URL, it answers with a response (\<open>fetch\<close> resolves, whatever the status) or
  not at all (\<open>fetch\<close> rejects). A network whose answer does not depend on \<open>n\<close> is a
  fixed one.
\<close>

type_synonym network = "nat \<Rightarrow> string \<Rightarrow> response option"

definition fixed_network :: "network \<Rightarrow> bool" where
  "fixed_network net = (\<forall>m n u. net m u = net n u)"

fun fetched :: "event list \<Rightarrow> string list" where
  "fetched [] = []"
| "fetched (Fetch u # es) = u # fetched es"
| "fetched (e # es) = fetched es"

definition fetch :: "network \<Rightarrow> string \<Rightarrow> sw_state \<Rightarrow> (error + response) \<times> sw_state" where
  "fetch net u s =
     ((case net (length (fetched (trace s))) u of
         None \<Rightarrow> Inl NetworkError
       | Some r \<Rightarrow> Inr r),
      s\<lparr>trace := trace s @ [Fetch u]\<rparr>)"

subsection \<open>What the Cache interface accepts\<close>

text \<open>
  The scheme of a URL string, in lower case: the characters before the first colon when
  they begin with a letter and are letters, digits, \<open>+\<close>, \<open>-\<close> or \<open>.\<close>. A string with
  no scheme is relative and resolves against the worker's own origin, which is HTTP(S).
\<close>

definition upper_case :: string where
  "upper_case = ''ABCDEFGHIJKLMNOPQRSTUVWXYZ''"

definition lower_case :: string where
  "lower_case = ''abcdefghijklmnopqrstuvwxyz''"

definition toLowerCase :: "string \<Rightarrow> string" where
  "toLowerCase s =
     map (\<lambda>c. case map_of (zip upper_case lower_case) c of None \<Rightarrow> c | Some l \<Rightarrow> l) s"

definition is_alpha :: "char \<Rightarrow> bool" where
  "is_alpha c = (c \<in> set (upper_case @ lower_case))"

definition is_scheme_char :: "char \<Rightarrow> bool" where
  "is_scheme_char c = (is_alpha c \<or> c \<in> set ''0123456789+-.'')"

definition url_scheme :: "string \<Rightarrow> string option" where
  "url_scheme u =
     (let sch = takeWhile (\<lambda>c. c \<noteq> CHR '':'') u
      in if sch \<noteq> [] \<and> length sch < length u \<and> is_alpha (hd sch) \<and>
            list_all is_scheme_char sch
         then Some (toLowerCase sch)
         else None)"

definition http_url :: "string \<Rightarrow> bool" where
  "http_url u =
     (case url_scheme u of None \<Rightarrow> True | Some sch \<Rightarrow> sch = ''http'' \<or> sch = ''https'')"

text \<open>
  A response names \<open>*\<close> in a \<open>Vary\<close> header: a header whose name is \<open>vary\<close> in any
  letter case has \<open>*\<close> among its comma-separated values.
\<close>

fun split_commas :: "string \<Rightarrow> string list" where
  "split_commas [] = [[]]"
| "split_commas (c # cs) =
     (if c = CHR '','' then [] # split_commas cs
      else (case split_commas cs of [] \<Rightarrow> [[c]] | x # xs \<Rightarrow> (c # x) # xs))"

definition is_ws :: "char \<Rightarrow> bool" where
  "is_ws c = (c = CHR '' '' \<or> c = CHR 0x09)"

definition trim :: "string \<Rightarrow> string" where
  "trim s = rev (dropWhile is_ws (rev (dropWhile is_ws s)))"

definition vary_star :: "response \<Rightarrow> bool" where
  "vary_star r =
     list_ex (\<lambda>h. toLowerCase (fst h) = ''vary'' \<and>
                  list_ex (\<lambda>v. trim v = ''*'') (split_commas (snd h)))
       (headers r)"

text \<open>
  \<open>cache.put(request, response)\<close> of the runtime rejects with a \<open>TypeError\<close>, and stores
  nothing, when the URL of the request is not HTTP(S), when its method is not GET, when
  the status of the response is 206, or when the response varies on \<open>*\<close>.
  \<open>cache.addAll\<close> makes GET requests of its URLs and refuses, besides, every answer
  that is not \<open>ok\<close>.
\<close>

definition put_accepts :: "string \<Rightarrow> string \<Rightarrow> response \<Rightarrow> bool" where
  "put_accepts u m r = (http_url u \<and> m = ''GET'' \<and> status r \<noteq> 206 \<and> \<not> vary_star r)"

definition addAll_accepts :: "response \<Rightarrow> bool" where
  "addAll_accepts r = (ok r \<and> status r \<noteq> 206 \<and> \<not> vary_star r)"

subsection \<open>Cache storage\<close>

text \<open>
  The store contract of the runtime: \<open>caches.open\<close> creates the partition when it does
  not exist; \<open>cache.match\<close> finds the entry stored under the URL, for a GET request or a
  URL string, and nothing for a request of another method; \<open>cache.put\<close>, when it accepts
  the pair, removes the entry of the URL and appends the new one; \<open>caches.delete\<close>
  removes the partition and \<open>caches.keys\<close> lists the partition names. Requests are told
  apart by their URL: the request headers that a stored response varies on are taken to
  agree. Where the worker does not await \<open>cache.put\<close>, the state returned is the one
  reached when the put has settled, and a rejection of it reaches nobody.
\<close>

definition partition_of :: "sw_state \<Rightarrow> string \<Rightarrow> partition" where
  "partition_of s name = (case map_of (caches s) name of None \<Rightarrow> [] | Some p \<Rightarrow> p)"

definition entry :: "sw_state \<Rightarrow> string \<Rightarrow> string \<Rightarrow> response option" where
  "entry s name key = map_of (partition_of s name) key"

definition cachesOpen :: "string \<Rightarrow> sw_state \<Rightarrow> sw_state" where
  "cachesOpen name s =
     s\<lparr>caches := (case map_of (caches s) name of
                    None \<Rightarrow> caches s @ [(name, [])]
                  | Some p \<Rightarrow> caches s),
       trace := trace s @ [CacheOpen name]\<rparr>"

definition cacheMatch :: "string \<Rightarrow> string \<Rightarrow> sw_state \<Rightarrow> response option \<times> sw_state" where
  "cacheMatch name key s = (entry s name key, s\<lparr>trace := trace s @ [CacheMatch name key]\<rparr>)"

definition matching :: "sw_state \<Rightarrow> string \<Rightarrow> request \<Rightarrow> response option" where
  "matching s name rq = (if rmethod rq = ''GET'' then entry s name (url rq) else None)"

definition cacheMatchRequest ::
  "string \<Rightarrow> request \<Rightarrow> sw_state \<Rightarrow> response option \<times> sw_state" where
  "cacheMatchRequest name rq s =
     (matching s name rq, s\<lparr>trace := trace s @ [CacheMatch name (url rq)]\<rparr>)"

definition put_entry :: "string \<Rightarrow> response \<Rightarrow> partition \<Rightarrow> partition" where
  "put_entry key r p = AList.delete key p @ [(key, r)]"

definition store_entry :: "string \<Rightarrow> string \<Rightarrow> response \<Rightarrow> sw_state \<Rightarrow> sw_state" where
  "store_entry name key r s =
     s\<lparr>caches := AList.update name (put_entry key r (partition_of s name)) (caches s)\<rparr>"

definition cachePut ::
  "string \<Rightarrow> string \<Rightarrow> string \<Rightarrow> response \<Rightarrow> sw_state \<Rightarrow> (error + unit) \<times> sw_state" where
  "cachePut name u m r s =
     (if put_accepts u m r
      then (Inr (), store_entry name u r (s\<lparr>trace := trace s @ [CachePut name u]\<rparr>))
      else (Inl TypeError, s\<lparr>trace := trace s @ [CachePut name u]\<rparr>))"

definition cachesDelete :: "string \<Rightarrow> sw_state \<Rightarrow> sw_state" where
  "cachesDelete name s =
     s\<lparr>caches := AList.delete name (caches s), trace := trace s @ [CacheDelete name]\<rparr>"

definition cachesKeys :: "sw_state \<Rightarrow> string list" where
  "cachesKeys s = map fst (caches s)"

section \<open>The caching strategies\<close>

text \<open>
  \<open>cacheFirst\<close> (lines 984-1006): open the partition, match the request; a hit is
  returned at once; on a miss the request goes to the network, \<open>cache.put\<close> is called
  for an \<open>ok\<close> response and not awaited, the network response is returned, and a
  rejected fetch is thrown again.
\<close>

definition cacheFirst ::
  "network \<Rightarrow> request \<Rightarrow> string \<Rightarrow> sw_state \<Rightarrow> (error + js_response) \<times> sw_state" where
  "cacheFirst net rq cacheName s =
     (case cacheMatchRequest cacheName rq (cachesOpen cacheName s) of
        (Some cachedResponse, s2) \<Rightarrow> (Inr (Response cachedResponse), s2)
      | (None, s2) \<Rightarrow>
          (case fetch net (url rq) s2 of
             (Inr networkResponse, s3) \<Rightarrow>
               (Inr (Response networkResponse),
                if ok networkResponse
                then snd (cachePut cacheName (url rq) (rmethod rq) networkResponse s3)
                else s3)
           | (Inl e, s3) \<Rightarrow> (Inl e, s3)))"

text \<open>
  \<open>networkFirst\<close> (lines 1009-1032): the request goes to the network first; for an
  \<open>ok\<close> answer \<open>cache.put\<close> is called and not awaited, and any answer is returned; when
  the fetch is rejected the partition is opened and matched, a hit is returned and on a
  miss the error is thrown again.
\<close>

definition networkFirst ::
  "network \<Rightarrow> request \<Rightarrow> string \<Rightarrow> sw_state \<Rightarrow> (error + js_response) \<times> sw_state" where
  "networkFirst net rq cacheName s =
     (case fetch net (url rq) s of
        (Inr networkResponse, s1) \<Rightarrow>
          (Inr (Response networkResponse),
           if ok networkResponse
           then snd (cachePut cacheName (url rq) (rmethod rq) networkResponse
                       (cachesOpen cacheName s1))
           else s1)
      | (Inl e, s1) \<Rightarrow>
          (case cacheMatchRequest cacheName rq (cachesOpen cacheName s1) of
             (Some cachedResponse, s2) \<Rightarrow> (Inr (Response cachedResponse), s2)
           | (None, s2) \<Rightarrow> (Inl e, s2)))"

text \<open>
  \<open>staleWhileRevalidate\<close> (lines 1035-1058). The promise \<open>networkResponsePromise\<close> is
  the fetch followed by its \<open>then\<close> (call \<open>cache.put\<close> for an \<open>ok\<close> response without
  awaiting it, hand the response on) and its \<open>catch\<close> (log; the handler returns nothing,
  so the promise resolves with \<open>undefined\<close>).
  The promise therefore never rejects. The state returned is the one reached when the
  refresh has settled; the value returned is the cached response when there is one and
  the value of the promise otherwise.
\<close>

definition networkResponsePromise ::
  "network \<Rightarrow> request \<Rightarrow> string \<Rightarrow> sw_state \<Rightarrow> js_response \<times> sw_state" where
  "networkResponsePromise net rq cacheName s =
     (case fetch net (url rq) s of
        (Inr networkResponse, s1) \<Rightarrow>
          (Response networkResponse,
           if ok networkResponse
           then snd (cachePut cacheName (url rq) (rmethod rq) networkResponse s1)
           else s1)
      | (Inl e, s1) \<Rightarrow> (Undefined, s1))"

definition staleWhileRevalidate ::
  "network \<Rightarrow> request \<Rightarrow> string \<Rightarrow> sw_state \<Rightarrow> (error + js_response) \<times> sw_state" where
  "staleWhileRevalidate net rq cacheName s =
     (case cacheMatchRequest cacheName rq (cachesOpen cacheName s) of
        (cachedResponse, s2) \<Rightarrow>
          (case networkResponsePromise net rq cacheName s2 of
             (networkResult, s3) \<Rightarrow>
               (case cachedResponse of
                  Some r \<Rightarrow> (Inr (Response r), s3)
                | None \<Rightarrow> (Inr networkResult, s3))))"

section \<open>Request types\<close>

text \<open>
  \<open>String.prototype.includes\<close> (here \<open>includes_str\<close>) and \<open>endsWith\<close>, and the pattern
  lists of \<open>CACHE_STRATEGIES\<close> (lines 854-883).
\<close>

fun includes_str :: "string \<Rightarrow> string \<Rightarrow> bool" where
  "includes_str [] pattern = (pattern = [])"
| "includes_str (c # cs) pattern = (prefix pattern (c # cs) \<or> includes_str cs pattern)"

definition endsWith :: "string \<Rightarrow> string \<Rightarrow> bool" where
  "endsWith s pattern = suffix pattern s"

definition STATIC_CACHE :: string where "STATIC_CACHE = ''vaperelax-static-v1''"
definition DYNAMIC_CACHE :: string where "DYNAMIC_CACHE = ''vaperelax-dynamic-v1''"
definition IMAGE_CACHE :: string where "IMAGE_CACHE = ''vaperelax-images-v1''"

definition STATIC_ASSETS :: "string list" where
  "STATIC_ASSETS =
     [''/'', ''/assets/css/main.css'', ''/assets/js/main.js'',
      ''/assets/fonts/arabic-font.woff2'', ''/assets/images/logo.png'',
      ''/assets/images/placeholder-product.jpg'', ''/offline.html'']"

definition static_patterns :: "string list" where
  "static_patterns = [''/assets/'', ''/fonts/'']"

definition networkFirst_patterns :: "string list" where
  "networkFirst_patterns = [''/api/'', ''/search'']"

definition cacheFirst_patterns :: "string list" where
  "cacheFirst_patterns = [''/images/'', ''.jpg'', ''.jpeg'', ''.png'', ''.webp'', ''.svg'']"

definition staleWhileRevalidate_patterns :: "string list" where
  "staleWhileRevalidate_patterns = [''/products/'', ''/categories/'', ''/brands/'']"

definition isStaticAsset :: "string \<Rightarrow> bool" where
  "isStaticAsset p = list_ex (\<lambda>pattern. includes_str p pattern) static_patterns"

definition isImage :: "string \<Rightarrow> bool" where
  "isImage p = list_ex (\<lambda>pattern. includes_str p pattern \<or> endsWith p pattern) cacheFirst_patterns"

definition isApiCall :: "string \<Rightarrow> bool" where
  "isApiCall p = list_ex (\<lambda>pattern. includes_str p pattern) networkFirst_patterns"

definition isPage :: "string \<Rightarrow> bool" where
  "isPage p = list_ex (\<lambda>pattern. includes_str p pattern) staleWhileRevalidate_patterns"

section \<open>The offline fallback and the request handler\<close>

text \<open>
  The body of the synthesized response is \<open>JSON.stringify\<close> of the object with the keys
  \<open>error\<close> and \<open>message\<close>; the message is Arabic text, given here by its UTF-8 bytes.
\<close>

definition offline_message :: string where
  "offline_message =
     [CHR 0xD9, CHR 0x84, CHR 0xD8, CHR 0xA7, CHR 0x20, CHR 0xD9, CHR 0x8A, CHR 0xD9,
      CHR 0x88, CHR 0xD8, CHR 0xAC, CHR 0xD8, CHR 0xAF, CHR 0x20, CHR 0xD8, CHR 0xA7,
      CHR 0xD8, CHR 0xAA, CHR 0xD8, CHR 0xB5, CHR 0xD8, CHR 0xA7, CHR 0xD9, CHR 0x84,
      CHR 0x20, CHR 0xD8, CHR 0xA8, CHR 0xD8, CHR 0xA7, CHR 0xD9, CHR 0x84, CHR 0xD8,
      CHR 0xA5, CHR 0xD9, CHR 0x86, CHR 0xD8, CHR 0xAA, CHR 0xD8, CHR 0xB1, CHR 0xD9,
      CHR 0x86, CHR 0xD8, CHR 0xAA]"

definition quoted :: "string \<Rightarrow> string" where
  "quoted s = CHR 0x22 # s @ [CHR 0x22]"

definition offline_response :: response where
  "offline_response =
     \<lparr>status = 503,
      statusText = ''Service Unavailable'',
      headers = [(''Content-Type'', ''application/json'')],
      body = ''{'' @ quoted ''error'' @ '':'' @ quoted ''Offline'' @ '','' @
             quoted ''message'' @ '':'' @ quoted offline_message @ ''}''\<rparr>"

text \<open>
  \<open>handleOffline\<close> (lines 1061-1090). \<open>cache.match\<close> resolves with \<open>undefined\<close> when the
  partition has no entry for the URL, and that is what the function then returns.
\<close>

definition match_result :: "response option \<Rightarrow> js_response" where
  "match_result m = (case m of None \<Rightarrow> Undefined | Some r \<Rightarrow> Response r)"

definition handleOffline :: "request \<Rightarrow> sw_state \<Rightarrow> js_response \<times> sw_state" where
  "handleOffline rq s =
     (if mode rq = ''navigate'' then
        (case cacheMatch STATIC_CACHE ''/offline.html'' (cachesOpen STATIC_CACHE s) of
           (m, s1) \<Rightarrow> (match_result m, s1))
      else if isImage (pathname rq) then
        (case cacheMatch STATIC_CACHE ''/assets/images/placeholder-product.jpg''
                (cachesOpen STATIC_CACHE s) of
           (m, s1) \<Rightarrow> (match_result m, s1))
      else (Response offline_response, s))"

text \<open>
  \<open>handleRequest\<close> (lines 949-981): the first request type that matches the path picks
  the strategy and the partition; an error thrown by the strategy is caught and answered
  by \<open>handleOffline\<close>.
\<close>

definition handleRequest :: "network \<Rightarrow> request \<Rightarrow> sw_state \<Rightarrow> js_response \<times> sw_state" where
  "handleRequest net rq s =
     (case (if isStaticAsset (pathname rq) then cacheFirst net rq STATIC_CACHE s
            else if isImage (pathname rq) then cacheFirst net rq IMAGE_CACHE s
            else if isApiCall (pathname rq) then networkFirst net rq DYNAMIC_CACHE s
            else if isPage (pathname rq) then staleWhileRevalidate net rq DYNAMIC_CACHE s
            else networkFirst net rq DYNAMIC_CACHE s) of
        (Inr response, s1) \<Rightarrow> (response, s1)
      | (Inl e, s1) \<Rightarrow> handleOffline rq s1)"

text \<open>
  The request types as one function of the path, and the strategy and partition of each
  type, written from the specification (sections 4.1 and 4.2) over the pattern tests of
  the source, to be compared with the dispatch of \<open>handleRequest\<close>.
\<close>

datatype resource_class = StaticAsset | ImageClass | ApiCall | Page | Unclassified

datatype strategy = CacheFirstStrategy | NetworkFirstStrategy | StaleWhileRevalidateStrategy

definition classify_spec :: "string \<Rightarrow> resource_class" where
  "classify_spec p =
     (if isStaticAsset p then StaticAsset
      else if isImage p then ImageClass
      else if isApiCall p then ApiCall
      else if isPage p then Page
      else Unclassified)"

fun select_spec :: "resource_class \<Rightarrow> strategy \<times> string" where
  "select_spec StaticAsset = (CacheFirstStrategy, STATIC_CACHE)"
| "select_spec ImageClass = (CacheFirstStrategy, IMAGE_CACHE)"
| "select_spec ApiCall = (NetworkFirstStrategy, DYNAMIC_CACHE)"
| "select_spec Page = (StaleWhileRevalidateStrategy, DYNAMIC_CACHE)"
| "select_spec Unclassified = (NetworkFirstStrategy, DYNAMIC_CACHE)"

fun run_strategy ::
  "strategy \<Rightarrow> network \<Rightarrow> request \<Rightarrow> string \<Rightarrow> sw_state \<Rightarrow> (error + js_response) \<times> sw_state" where
  "run_strategy CacheFirstStrategy = cacheFirst"
| "run_strategy NetworkFirstStrategy = networkFirst"
| "run_strategy StaleWhileRevalidateStrategy = staleWhileRevalidate"

definition handleRequest_spec :: "network \<Rightarrow> request \<Rightarrow> sw_state \<Rightarrow> js_response \<times> sw_state" where
  "handleRequest_spec net rq s =
     (case select_spec (classify_spec (pathname rq)) of
        (strat, cacheName) \<Rightarrow>
          (case run_strategy strat net rq cacheName s of
             (Inr response, s1) \<Rightarrow> (response, s1)
           | (Inl e, s1) \<Rightarrow> handleOffline rq s1))"

section \<open>Install and activate\<close>

text \<open>
  \<open>cache.addAll\<close> is the runtime's. It takes the URLs in order: a URL that is not
  HTTP(S) ends it at once with a \<open>TypeError\<close>, the fetches before it aborted and those
  after it never issued; otherwise the URL is fetched. When every fetch is answered and
  every answer accepted, and no URL occurs twice, the answers are stored, all of them;
  when a fetch is rejected or an answer refused it rejects with a \<open>TypeError\<close>, when a
  URL occurs twice with an \<open>InvalidStateError\<close>, and it stores nothing.
\<close>

fun addAll_fetch ::
  "network \<Rightarrow> string list \<Rightarrow> sw_state \<Rightarrow> (error + (string \<times> response) list) \<times> sw_state" where
  "addAll_fetch net [] s = (Inr [], s)"
| "addAll_fetch net (u # us) s =
     (if http_url u then
        (case fetch net u s of
           (r, s1) \<Rightarrow>
             (case addAll_fetch net us s1 of
                (rs, s2) \<Rightarrow>
                  (case (r, rs) of
                     (Inr resp, Inr xs) \<Rightarrow>
                       if addAll_accepts resp then (Inr ((u, resp) # xs), s2)
                       else (Inl TypeError, s2)
                   | (Inr resp, Inl e) \<Rightarrow> (Inl TypeError, s2)
                   | (Inl e, _) \<Rightarrow> (Inl TypeError, s2))))
      else (Inl TypeError, s))"

fun putAll :: "string \<Rightarrow> (string \<times> response) list \<Rightarrow> sw_state \<Rightarrow> sw_state" where
  "putAll name [] s = s"
| "putAll name ((u, r) # xs) s = putAll name xs (store_entry name u r s)"

definition cacheAddAll ::
  "network \<Rightarrow> string \<Rightarrow> string list \<Rightarrow> sw_state \<Rightarrow> (error + unit) \<times> sw_state" where
  "cacheAddAll net name urls s =
     (case addAll_fetch net urls s of
        (Inr xs, s1) \<Rightarrow>
          if distinct urls then (Inr (), putAll name xs s1) else (Inl InvalidStateError, s1)
      | (Inl e, s1) \<Rightarrow> (Inl e, s1))"

text \<open>
  The install listener (lines 886-903). Its result is how the promise given to
  \<open>event.waitUntil\<close> settles: \<open>Inl\<close> when it rejects (the runtime then discards the new
  worker), \<open>Inr\<close> when it resolves (the worker is installed and goes on to activate).
  The chain ends in a \<open>catch\<close> whose handler logs the error and returns nothing.
\<close>

definition install :: "network \<Rightarrow> sw_state \<Rightarrow> (error + unit) \<times> sw_state" where
  "install net s =
     (case cacheAddAll net STATIC_CACHE STATIC_ASSETS (cachesOpen STATIC_CACHE s) of
        (Inr u, s1) \<Rightarrow> (Inr (), s1\<lparr>skip_waiting := True\<rparr>)
      | (Inl e, s1) \<Rightarrow> (Inr (), s1))"

text \<open>
  Every URL of a list is HTTP(S) and its fetch, the fetches being issued from request
  number \<open>n\<close> on, is answered with a response that \<open>cache.addAll\<close> accepts.
\<close>

fun all_fetch_ok :: "network \<Rightarrow> nat \<Rightarrow> string list \<Rightarrow> bool" where
  "all_fetch_ok net n [] = True"
| "all_fetch_ok net n (u # us) =
     (http_url u \<and> (case net n u of None \<Rightarrow> False | Some r \<Rightarrow> addAll_accepts r) \<and>
      all_fetch_ok net (Suc n) us)"

text \<open>The URLs of a list paired with the answers to their fetches.\<close>

fun fetched_pairs :: "network \<Rightarrow> nat \<Rightarrow> string list \<Rightarrow> (string \<times> response) list" where
  "fetched_pairs net n [] = []"
| "fetched_pairs net n (u # us) =
     (case net n u of
        None \<Rightarrow> fetched_pairs net (Suc n) us
      | Some r \<Rightarrow> (u, r) # fetched_pairs net (Suc n) us)"

text \<open>
  The activate listener (lines 906-928): every name that \<open>caches.keys()\<close> lists and that
  is none of the three current names is deleted; then the clients are claimed.
\<close>

definition delete_old :: "sw_state \<Rightarrow> string \<Rightarrow> sw_state" where
  "delete_old s cacheName =
     (if cacheName \<noteq> STATIC_CACHE \<and> cacheName \<noteq> DYNAMIC_CACHE \<and> cacheName \<noteq> IMAGE_CACHE
      then cachesDelete cacheName s
      else s)"

definition activate :: "sw_state \<Rightarrow> sw_state" where
  "activate s = (foldl delete_old s (cachesKeys s))\<lparr>clients_claimed := True\<rparr>"

definition known_partitions :: "string list" where
  "known_partitions = [STATIC_CACHE, DYNAMIC_CACHE, IMAGE_CACHE]"

section \<open>Background sync\<close>

text \<open>
  \<open>doBackgroundSync\<close> (lines 1118-1145) works on the raw IndexedDB interface: \<open>openDB\<close>
  (lines 1251-1267) resolves with the \<open>IDBDatabase\<close> of \<open>indexedDB.open\<close>, so \<open>store\<close>
  is an \<open>IDBObjectStore\<close>. Its \<open>getAll()\<close> returns an \<open>IDBRequest\<close>, whose result
  arrives through \<open>onsuccess\<close>, the way \<open>openDB\<close> itself waits for \<open>indexedDB.open\<close>. An
  \<open>IDBRequest\<close> is no promise, so \<open>await\<close> hands it on as it is, and it is not
  iterable, so \<open>for ... of\<close> over it throws a \<open>TypeError\<close>, which the outer \<open>catch\<close>
  logs.
\<close>

datatype js_value = Array "request_data list" | IDBRequest "request_data list"

definition store_getAll :: "sw_state \<Rightarrow> js_value" where
  "store_getAll s = IDBRequest (failed_requests s)"

fun await_value :: "js_value \<Rightarrow> js_value" where
  "await_value v = v"

fun iterate :: "js_value \<Rightarrow> error + request_data list" where
  "iterate (Array xs) = Inr xs"
| "iterate (IDBRequest xs) = Inl TypeError"

definition store_delete :: "nat \<Rightarrow> sw_state \<Rightarrow> sw_state" where
  "store_delete i s =
     s\<lparr>failed_requests := filter (\<lambda>e. entry_id e \<noteq> i) (failed_requests s),
       trace := trace s @ [StoreDelete i]\<rparr>"

text \<open>The body of the loop: replay the request, and delete the record when \<open>fetch\<close> resolved.\<close>

fun replayAll :: "network \<Rightarrow> request_data list \<Rightarrow> sw_state \<Rightarrow> sw_state" where
  "replayAll net [] s = s"
| "replayAll net (requestData # rest) s =
     (case fetch net (entry_url requestData) s of
        (Inr r, s1) \<Rightarrow> replayAll net rest (store_delete (entry_id requestData) s1)
      | (Inl e, s1) \<Rightarrow> replayAll net rest s1)"

definition doBackgroundSync :: "network \<Rightarrow> sw_state \<Rightarrow> sw_state" where
  "doBackgroundSync net s =
     (if idb_available s then
        (case iterate (await_value (store_getAll s)) of
           Inr requests \<Rightarrow> replayAll net requests s
         | Inl e \<Rightarrow> s)
      else s)"

section \<open>The \<open>CACHE_URLS\<close> message\<close>

text \<open>
  \<open>cacheUrls\<close> (lines 1224-1238): each URL is fetched and, for an \<open>ok\<close> response,
  \<open>cache.put\<close> into the dynamic partition is called under the URL and awaited; a
  rejected fetch and a rejected put are caught and logged, and the loop goes on.
\<close>

fun cacheUrls_loop :: "network \<Rightarrow> string list \<Rightarrow> sw_state \<Rightarrow> sw_state" where
  "cacheUrls_loop net [] s = s"
| "cacheUrls_loop net (u # urls) s =
     (case fetch net u s of
        (Inr response, s1) \<Rightarrow>
          if ok response then
            (case cachePut DYNAMIC_CACHE u ''GET'' response s1 of
               (Inr done, s2) \<Rightarrow> cacheUrls_loop net urls s2
             | (Inl e, s2) \<Rightarrow> cacheUrls_loop net urls s2)
          else cacheUrls_loop net urls s1
      | (Inl e, s1) \<Rightarrow> cacheUrls_loop net urls s1)"

definition cacheUrls :: "network \<Rightarrow> string list \<Rightarrow> sw_state \<Rightarrow> sw_state" where
  "cacheUrls net urls s = cacheUrls_loop net urls (cachesOpen DYNAMIC_CACHE s)"

section \<open>Example states and networks\<close>

definition empty_state :: sw_state where
  "empty_state =
     \<lparr>caches = [], trace = [], failed_requests = [], idb_available = True,
      skip_waiting = False, clients_claimed = False\<rparr>"

definition offline :: network where
  "offline n u = None"

definition page_response :: response where
  "page_response = \<lparr>status = 200, statusText = ''OK'', headers = [], body = ''page''\<rparr>"

definition not_found :: response where
  "not_found = \<lparr>status = 404, statusText = ''Not Found'', headers = [], body = []\<rparr>"

definition online :: network where
  "online n u = Some page_response"

definition rq_css :: request where
  "rq_css =
     \<lparr>url = ''/assets/css/main.css'', pathname = ''/assets/css/main.css'',
      rmethod = ''GET'', mode = ''no-cors''\<rparr>"

definition rq_api :: request where
  "rq_api =
     \<lparr>url = ''/api/cart'', pathname = ''/api/cart'', rmethod = ''GET'', mode = ''cors''\<rparr>"

definition rq_page :: request where
  "rq_page =
     \<lparr>url = ''/products/1'', pathname = ''/products/1'', rmethod = ''GET'',
      mode = ''navigate''\<rparr>"

definition css_cached :: sw_state where
  "css_cached = empty_state\<lparr>caches := [(STATIC_CACHE, [(url rq_css, page_response)])]\<rparr>"

definition api_cached :: sw_state where
  "api_cached = empty_state\<lparr>caches := [(DYNAMIC_CACHE, [(url rq_api, page_response)])]\<rparr>"

definition failing :: network where
  "failing n u = Some not_found"

definition offline_ready :: sw_state where
  "offline_ready =
     empty_state\<lparr>caches :=
       [(STATIC_CACHE,
         [(''/assets/images/placeholder-product.jpg'', page_response),
          (''/offline.html'', page_response)])]\<rparr>"

definition rq_img :: request where
  "rq_img =
     \<lparr>url = ''/assets/images/logo.png'', pathname = ''/assets/images/logo.png'',
      rmethod = ''GET'', mode = ''no-cors''\<rparr>"

definition upgraded :: sw_state where
  "upgraded = empty_state\<lparr>caches := [(''vaperelax-static-v0'', []), (STATIC_CACHE, [])]\<rparr>"


definition queued :: sw_state where
  "queued =
     empty_state\<lparr>failed_requests :=
       [\<lparr>entry_id = 1, entry_url = ''/api/cart/add'', options = [(''method'', ''POST'')],
         timestamp = 0\<rparr>]\<rparr>"

definition rq_post :: request where
  "rq_post =
     \<lparr>url = ''/api/cart'', pathname = ''/api/cart'', rmethod = ''POST'', mode = ''cors''\<rparr>"

definition partial_content :: response where
  "partial_content =
     \<lparr>status = 206, statusText = ''Partial Content'', headers = [], body = ''pa''\<rparr>"

definition ranged :: network where
  "ranged n u = Some partial_content"

definition flaky :: network where
  "flaky n u =
     (if u = ''/down'' then None
      else if u = ''/range'' then Some partial_content
      else Some page_response)"

definition some_urls :: "string list" where
  "some_urls = [''/a'', ''/down'', ''/range'', ''/b'', ''/a'']"

text \<open>
  The pairs that a run of \<open>cacheUrls\<close> stores under a network that answers a URL the
  same way at every request, and the partition after they are stored in order.
\<close>

fun stored_pairs :: "network \<Rightarrow> string list \<Rightarrow> (string \<times> response) list" where
  "stored_pairs net [] = []"
| "stored_pairs net (u # urls) =
     (case net 0 u of
        None \<Rightarrow> stored_pairs net urls
      | Some r \<Rightarrow>
          if ok r \<and> put_accepts u ''GET'' r then (u, r) # stored_pairs net urls
          else stored_pairs net urls)"

fun put_entries :: "(string \<times> response) list \<Rightarrow> partition \<Rightarrow> partition" where
  "put_entries [] p = p"
| "put_entries ((u, r) # xs) p = put_entries xs (put_entry u r p)"

text \<open>
  The identifiers of the records whose replay resolves, when the replays of a list of
  records are issued from request number \<open>n\<close> on.
\<close>

fun resolved_ids :: "network \<Rightarrow> nat \<Rightarrow> request_data list \<Rightarrow> nat list" where
  "resolved_ids net n [] = []"
| "resolved_ids net n (r # rs) =
     (case net n (entry_url r) of
        None \<Rightarrow> resolved_ids net (Suc n) rs
      | Some a \<Rightarrow> entry_id r # resolved_ids net (Suc n) rs)"

section \<open>Properties of the store operations\<close>

lemma fetched_append: "fetched (xs @ ys) = fetched xs @ fetched ys"
  by (induction xs rule: fetched.induct) simp_all

lemma trace_cachesOpen [simp]: "trace (cachesOpen c s) = trace s @ [CacheOpen c]"
  by (simp add: cachesOpen_def)

lemma trace_cachePut [simp]: "trace (snd (cachePut c u m r s)) = trace s @ [CachePut c u]"
  by (simp add: cachePut_def store_entry_def)

lemma map_of_put_entry: "map_of (put_entry k r p) = (map_of p)(k \<mapsto> r)"
  by (auto simp: put_entry_def map_add_def delete_conv' fun_eq_iff split: option.splits)

lemma entry_cachesOpen [simp]: "entry (cachesOpen c s) n k = entry s n k"
  by (auto simp: entry_def partition_of_def cachesOpen_def split: option.splits if_splits)

lemma entry_trace_update [simp]: "entry (s\<lparr>trace := t\<rparr>) n k = entry s n k"
  by (simp add: entry_def partition_of_def)

lemma entry_store_entry:
  "entry (store_entry c k r s) n j = (if n = c \<and> j = k then Some r else entry s n j)"
  by (auto simp: entry_def partition_of_def store_entry_def update_conv' map_of_put_entry
      split: option.splits)

lemma entry_cachePut:
  "entry (snd (cachePut c u m r s)) n j =
     (if put_accepts u m r \<and> n = c \<and> j = u then Some r else entry s n j)"
  by (simp add: cachePut_def entry_store_entry)

lemma matching_cachesOpen [simp]: "matching (cachesOpen c s) n rq = matching s n rq"
  by (simp add: matching_def)

lemma matching_trace_update [simp]: "matching (s\<lparr>trace := t\<rparr>) n rq = matching s n rq"
  by (simp add: matching_def)

lemma caches_cachesOpen_hit: "entry s c k = Some r \<Longrightarrow> caches (cachesOpen c s) = caches s"
  by (auto simp: entry_def partition_of_def cachesOpen_def split: option.splits)

lemma caches_cachesOpen_matching:
  "matching s c rq = Some r \<Longrightarrow> caches (cachesOpen c s) = caches s"
  by (auto simp: matching_def caches_cachesOpen_hit split: if_splits)

lemma put_accepts_GET: "put_accepts u m r \<Longrightarrow> m = ''GET''"
  by (simp add: put_accepts_def)

lemma http_url_relative [simp]: "http_url (CHR ''/'' # u)"
  by (simp add: http_url_def url_scheme_def is_alpha_def upper_case_def lower_case_def)

lemma ok_page_response [simp]: "ok page_response"
  by (simp add: ok_def page_response_def)

lemma not_ok_not_found [simp]: "\<not> ok not_found"
  by (simp add: ok_def not_found_def)

lemma ok_partial_content [simp]: "ok partial_content \<and> status partial_content = 206"
  by (simp add: ok_def partial_content_def)

lemma not_vary_star_page_response [simp]: "\<not> vary_star page_response"
  by (simp add: vary_star_def page_response_def)

lemma status_page_response [simp]: "status page_response = 200"
  by (simp add: page_response_def)

lemma put_accepts_page_response [simp]: "put_accepts (CHR ''/'' # u) ''GET'' page_response"
  by (simp add: put_accepts_def)

lemma not_put_accepts_partial_content [simp]: "\<not> put_accepts u m partial_content"
  by (simp add: put_accepts_def partial_content_def)

lemma entry_empty_state [simp]: "entry empty_state n k = None"
  by (simp add: entry_def partition_of_def empty_state_def)

lemma matching_empty_state [simp]: "matching empty_state n rq = None"
  by (simp add: matching_def)

lemma trace_empty_state [simp]: "trace empty_state = []"
  by (simp add: empty_state_def)

lemma entry_css_cached [simp]: "entry css_cached STATIC_CACHE (url rq_css) = Some page_response"
  by (simp add: entry_def partition_of_def css_cached_def)

lemma entry_api_cached [simp]: "entry api_cached DYNAMIC_CACHE (url rq_api) = Some page_response"
  by (simp add: entry_def partition_of_def api_cached_def)

lemma trace_css_cached [simp]: "trace css_cached = []"
  by (simp add: css_cached_def empty_state_def)

lemma trace_api_cached [simp]: "trace api_cached = []"
  by (simp add: api_cached_def empty_state_def)

lemma rmethod_examples [simp]:
  "rmethod rq_css = ''GET''" "rmethod rq_api = ''GET''" "rmethod rq_page = ''GET''"
  "rmethod rq_img = ''GET''" "rmethod rq_post = ''POST''"
  by (simp_all add: rq_css_def rq_api_def rq_page_def rq_img_def rq_post_def)

lemma url_examples [simp]:
  "url rq_css = ''/assets/css/main.css''" "url rq_api = ''/api/cart''"
  "url rq_page = ''/products/1''" "url rq_post = ''/api/cart''"
  by (simp_all add: rq_css_def rq_api_def rq_page_def rq_post_def)

section \<open>Cache-first\<close>

text \<open>
  Claim C1, as stated, fails: a 2xx answer is not always stored. For a GET request with
  no entry in the partition and the answer 206 Partial Content, \<open>cacheFirst\<close> returns the
  answer and calls \<open>cache.put\<close>, which refuses it, so the partition holds nothing for the
  request afterwards.
\<close>

theorem cacheFirst_partial_content:
  "rmethod rq_css = ''GET'' \<and>
   entry empty_state STATIC_CACHE (url rq_css) = None \<and>
   ranged 0 (url rq_css) = Some partial_content \<and>
   status partial_content = 206 \<and> ok partial_content \<and>
   fst (cacheFirst ranged rq_css STATIC_CACHE empty_state) = Inr (Response partial_content) \<and>
   entry (snd (cacheFirst ranged rq_css STATIC_CACHE empty_state)) STATIC_CACHE (url rq_css)
     = None"
  by (simp add: cacheFirst_def cacheMatchRequest_def fetch_def ranged_def entry_cachePut
      del: url_examples)

text \<open>
  Claim C1, amended. \<open>cache.match\<close> finds for a GET request the entry stored under its
  URL. \<open>cacheFirst\<close> on a request and a partition: when the match finds an entry, that
  entry is returned, no request goes to the network and the cache storage is as before.
  When it finds none, exactly one request goes to the network; if the network answers,
  the answer is returned, and afterwards the partition holds it for the request if and
  only if its status is 2xx and \<open>cache.put\<close> accepts it (the request is GET over HTTP(S),
  the status is not 206, the response does not vary on \<open>*\<close>), the entry of the request
  being as before otherwise and every other entry being as before; if the network does
  not answer, the failure is thrown to the caller and every entry is as before. After a
  miss answered with a stored response, the same request is served again from the
  partition, with that response and no request to the network, whatever the network
  would answer then.
\<close>

theorem cacheFirst_spec:
  fixes net :: network
  shows
  "(rmethod rq = ''GET'' \<longrightarrow> matching s c rq = entry s c (url rq)) \<and>
   (matching s c rq = Some r \<longrightarrow>
      fst (cacheFirst net rq c s) = Inr (Response r) \<and>
      fetched (trace (snd (cacheFirst net rq c s))) = fetched (trace s) \<and>
      caches (snd (cacheFirst net rq c s)) = caches s) \<and>
   (matching s c rq = None \<and> net (length (fetched (trace s))) (url rq) = Some nr \<longrightarrow>
      fst (cacheFirst net rq c s) = Inr (Response nr) \<and>
      fetched (trace (snd (cacheFirst net rq c s))) = fetched (trace s) @ [url rq] \<and>
      entry (snd (cacheFirst net rq c s)) c (url rq) =
        (if ok nr \<and> put_accepts (url rq) (rmethod rq) nr then Some nr
         else entry s c (url rq)) \<and>
      (\<forall>n k. (n, k) \<noteq> (c, url rq) \<longrightarrow>
         entry (snd (cacheFirst net rq c s)) n k = entry s n k)) \<and>
   (matching s c rq = None \<and> net (length (fetched (trace s))) (url rq) = None \<longrightarrow>
      fst (cacheFirst net rq c s) = Inl NetworkError \<and>
      fetched (trace (snd (cacheFirst net rq c s))) = fetched (trace s) @ [url rq] \<and>
      (\<forall>n k. entry (snd (cacheFirst net rq c s)) n k = entry s n k)) \<and>
   (matching s c rq = None \<and> net (length (fetched (trace s))) (url rq) = Some nr \<and>
    ok nr \<and> put_accepts (url rq) (rmethod rq) nr \<longrightarrow>
      fst (cacheFirst net' rq c (snd (cacheFirst net rq c s))) = Inr (Response nr) \<and>
      fetched (trace (snd (cacheFirst net' rq c (snd (cacheFirst net rq c s)))))
        = fetched (trace (snd (cacheFirst net rq c s))))"
proof -
  have get: "rmethod rq = ''GET'' \<longrightarrow> matching s c rq = entry s c (url rq)"
    by (simp add: matching_def)
  have hit: "matching s c rq = Some r \<longrightarrow>
      fst (cacheFirst net rq c s) = Inr (Response r) \<and>
      fetched (trace (snd (cacheFirst net rq c s))) = fetched (trace s) \<and>
      caches (snd (cacheFirst net rq c s)) = caches s"
    by (simp add: cacheFirst_def cacheMatchRequest_def fetched_append caches_cachesOpen_matching)
  have miss: "matching s c rq = None \<and> net (length (fetched (trace s))) (url rq) = Some nr \<longrightarrow>
      fst (cacheFirst net rq c s) = Inr (Response nr) \<and>
      fetched (trace (snd (cacheFirst net rq c s))) = fetched (trace s) @ [url rq] \<and>
      entry (snd (cacheFirst net rq c s)) c (url rq) =
        (if ok nr \<and> put_accepts (url rq) (rmethod rq) nr then Some nr
         else entry s c (url rq)) \<and>
      (\<forall>n k. (n, k) \<noteq> (c, url rq) \<longrightarrow>
         entry (snd (cacheFirst net rq c s)) n k = entry s n k)"
    by (auto simp: cacheFirst_def cacheMatchRequest_def fetch_def fetched_append entry_cachePut)
  have down: "matching s c rq = None \<and> net (length (fetched (trace s))) (url rq) = None \<longrightarrow>
      fst (cacheFirst net rq c s) = Inl NetworkError \<and>
      fetched (trace (snd (cacheFirst net rq c s))) = fetched (trace s) @ [url rq] \<and>
      (\<forall>n k. entry (snd (cacheFirst net rq c s)) n k = entry s n k)"
    by (simp add: cacheFirst_def cacheMatchRequest_def fetch_def fetched_append)
  have again: "matching s c rq = None \<and> net (length (fetched (trace s))) (url rq) = Some nr \<and>
    ok nr \<and> put_accepts (url rq) (rmethod rq) nr \<longrightarrow>
      fst (cacheFirst net' rq c (snd (cacheFirst net rq c s))) = Inr (Response nr) \<and>
      fetched (trace (snd (cacheFirst net' rq c (snd (cacheFirst net rq c s)))))
        = fetched (trace (snd (cacheFirst net rq c s)))"
  proof
    assume a: "matching s c rq = None \<and> net (length (fetched (trace s))) (url rq) = Some nr \<and>
      ok nr \<and> put_accepts (url rq) (rmethod rq) nr"
    let ?s1 = "snd (cacheFirst net rq c s)"
    from a miss have "entry ?s1 c (url rq) = Some nr"
      by simp
    moreover from a have "rmethod rq = ''GET''"
      by (auto dest: put_accepts_GET)
    ultimately have m1: "matching ?s1 c rq = Some nr"
      by (simp add: matching_def)
    then show "fst (cacheFirst net' rq c ?s1) = Inr (Response nr) \<and>
      fetched (trace (snd (cacheFirst net' rq c ?s1))) = fetched (trace ?s1)"
      by (simp add: cacheFirst_def [of net' rq c ?s1] cacheMatchRequest_def fetched_append)
  qed
  show ?thesis
    using get hit miss down again by blast
qed

theorem cacheFirst_spec_witness:
  "(rmethod rq_css = ''GET'' \<and>
    matching css_cached STATIC_CACHE rq_css = entry css_cached STATIC_CACHE (url rq_css)) \<and>
   (matching css_cached STATIC_CACHE rq_css = Some page_response \<and>
    fst (cacheFirst offline rq_css STATIC_CACHE css_cached) = Inr (Response page_response) \<and>
    fetched (trace (snd (cacheFirst offline rq_css STATIC_CACHE css_cached))) = []) \<and>
   (matching empty_state STATIC_CACHE rq_css = None \<and>
    online 0 (url rq_css) = Some page_response \<and>
    ok page_response \<and> put_accepts (url rq_css) (rmethod rq_css) page_response \<and>
    fst (cacheFirst online rq_css STATIC_CACHE empty_state) = Inr (Response page_response) \<and>
    entry (snd (cacheFirst online rq_css STATIC_CACHE empty_state)) STATIC_CACHE (url rq_css)
      = Some page_response \<and>
    fst (cacheFirst offline rq_css STATIC_CACHE
           (snd (cacheFirst online rq_css STATIC_CACHE empty_state)))
      = Inr (Response page_response)) \<and>
   (failing 0 (url rq_css) = Some not_found \<and>
    fst (cacheFirst failing rq_css STATIC_CACHE empty_state) = Inr (Response not_found) \<and>
    entry (snd (cacheFirst failing rq_css STATIC_CACHE empty_state)) STATIC_CACHE (url rq_css)
      = None) \<and>
   (offline 0 (url rq_css) = None \<and>
    fst (cacheFirst offline rq_css STATIC_CACHE empty_state) = Inl NetworkError)"
proof -
  have hit: "matching css_cached STATIC_CACHE rq_css = Some page_response"
    using entry_css_cached by (simp add: matching_def del: url_examples entry_css_cached)
  have miss: "matching empty_state STATIC_CACHE rq_css = None"
    by simp
  have on: "online (length (fetched (trace empty_state))) (url rq_css) = Some page_response"
    by (simp add: online_def)
  have nf: "failing (length (fetched (trace empty_state))) (url rq_css) = Some not_found"
    by (simp add: failing_def)
  have off: "offline (length (fetched (trace empty_state))) (url rq_css) = None"
    by (simp add: offline_def)
  have acc: "put_accepts (url rq_css) (rmethod rq_css) page_response"
    by simp
  have get: "rmethod rq_css = ''GET''"
    by simp
  show ?thesis
    using hit miss on nf off acc get
      cacheFirst_spec [of rq_css css_cached STATIC_CACHE page_response offline]
      cacheFirst_spec [of rq_css empty_state STATIC_CACHE page_response online page_response
        offline]
      cacheFirst_spec [of rq_css empty_state STATIC_CACHE page_response failing not_found]
      cacheFirst_spec [of rq_css empty_state STATIC_CACHE page_response offline]
    by simp
qed

section \<open>Network-first\<close>

text \<open>
  Claim C2, as stated, fails: a successful answer is not always stored. For a GET request
  answered 206 Partial Content, and for a POST request answered 200, \<open>networkFirst\<close>
  returns the answer and calls \<open>cache.put\<close>, which refuses the pair, so the partition
  holds nothing for the request afterwards.
\<close>

theorem networkFirst_not_stored:
  "rmethod rq_api = ''GET'' \<and>
   ranged 0 (url rq_api) = Some partial_content \<and>
   status partial_content = 206 \<and> ok partial_content \<and>
   fst (networkFirst ranged rq_api DYNAMIC_CACHE empty_state) = Inr (Response partial_content) \<and>
   entry (snd (networkFirst ranged rq_api DYNAMIC_CACHE empty_state)) DYNAMIC_CACHE (url rq_api)
     = None \<and>
   rmethod rq_post = ''POST'' \<and>
   online 0 (url rq_post) = Some page_response \<and>
   status page_response = 200 \<and> ok page_response \<and>
   fst (networkFirst online rq_post DYNAMIC_CACHE empty_state) = Inr (Response page_response) \<and>
   entry (snd (networkFirst online rq_post DYNAMIC_CACHE empty_state)) DYNAMIC_CACHE (url rq_post)
     = None"
  by (simp add: networkFirst_def fetch_def ranged_def online_def entry_cachePut put_accepts_def
      del: url_examples)

text \<open>
  Claim C2, amended. \<open>networkFirst\<close> issues the network request before it touches the
  cache, and issues it once. When the network answers with a 2xx response, the response
  is returned, and the partition then holds it for the request if and only if
  \<open>cache.put\<close> accepts it (the request is GET over HTTP(S), the status is not 206, the
  response does not vary on \<open>*\<close>), the entry of the request being as before otherwise.
  When the network does not answer, the entry that \<open>cache.match\<close> finds for the request
  (for a GET request the entry under its URL, for another method none) is returned if
  there is one, and the cache storage is as before; if there is none, the failure is
  thrown to the caller.
\<close>

theorem networkFirst_spec:
  fixes net :: network
  shows
  "(rmethod rq = ''GET'' \<longrightarrow> matching s c rq = entry s c (url rq)) \<and>
   (\<exists>rest. trace (snd (networkFirst net rq c s)) = trace s @ Fetch (url rq) # rest) \<and>
   fetched (trace (snd (networkFirst net rq c s))) = fetched (trace s) @ [url rq] \<and>
   (net (length (fetched (trace s))) (url rq) = Some nr \<and> ok nr \<longrightarrow>
      fst (networkFirst net rq c s) = Inr (Response nr) \<and>
      entry (snd (networkFirst net rq c s)) c (url rq) =
        (if put_accepts (url rq) (rmethod rq) nr then Some nr else entry s c (url rq))) \<and>
   (net (length (fetched (trace s))) (url rq) = None \<and> matching s c rq = Some r \<longrightarrow>
      fst (networkFirst net rq c s) = Inr (Response r) \<and>
      caches (snd (networkFirst net rq c s)) = caches s) \<and>
   (net (length (fetched (trace s))) (url rq) = None \<and> matching s c rq = None \<longrightarrow>
      fst (networkFirst net rq c s) = Inl NetworkError \<and>
      (\<forall>n k. entry (snd (networkFirst net rq c s)) n k = entry s n k))"
  by (auto simp: networkFirst_def cacheMatchRequest_def fetch_def fetched_append entry_cachePut
      matching_def
      caches_cachesOpen_hit [where s = "s\<lparr>trace := t\<rparr>" for t, simplified]
      split: option.splits if_splits)

theorem networkFirst_spec_witness:
  "(rmethod rq_api = ''GET'' \<and>
    matching api_cached DYNAMIC_CACHE rq_api = entry api_cached DYNAMIC_CACHE (url rq_api)) \<and>
   (online 0 (url rq_api) = Some page_response \<and> ok page_response \<and>
    put_accepts (url rq_api) (rmethod rq_api) page_response \<and>
    fst (networkFirst online rq_api DYNAMIC_CACHE empty_state) = Inr (Response page_response) \<and>
    entry (snd (networkFirst online rq_api DYNAMIC_CACHE empty_state)) DYNAMIC_CACHE (url rq_api)
      = Some page_response) \<and>
   (offline 0 (url rq_api) = None \<and>
    rmethod rq_api = ''GET'' \<and>
    matching api_cached DYNAMIC_CACHE rq_api = Some page_response \<and>
    fst (networkFirst offline rq_api DYNAMIC_CACHE api_cached) = Inr (Response page_response)) \<and>
   (matching empty_state DYNAMIC_CACHE rq_api = None \<and>
    fst (networkFirst offline rq_api DYNAMIC_CACHE empty_state) = Inl NetworkError)"
proof -
  have on: "online (length (fetched (trace empty_state))) (url rq_api) = Some page_response"
    by (simp add: online_def)
  have off: "offline (length (fetched (trace empty_state))) (url rq_api) = None"
    by (simp add: offline_def)
  have off': "offline (length (fetched (trace api_cached))) (url rq_api) = None"
    by (simp add: offline_def)
  have hit: "matching api_cached DYNAMIC_CACHE rq_api = Some page_response"
    using entry_api_cached by (simp add: matching_def del: url_examples entry_api_cached)
  have miss: "matching empty_state DYNAMIC_CACHE rq_api = None"
    by simp
  have acc: "put_accepts (url rq_api) (rmethod rq_api) page_response"
    by simp
  have get: "rmethod rq_api = ''GET''"
    by simp
  show ?thesis
    using on off off' hit miss acc get
      networkFirst_spec [of rq_api empty_state DYNAMIC_CACHE online page_response page_response]
      networkFirst_spec [of rq_api api_cached DYNAMIC_CACHE offline page_response page_response]
      networkFirst_spec [of rq_api empty_state DYNAMIC_CACHE offline page_response page_response]
    by simp
qed

text \<open>
  Claim C10. In \<open>networkFirst\<close> an answer whose status is not 2xx is no failure: it is
  returned as it is and the only operation issued is the fetch, so nothing is stored and
  the cache is not consulted. The partition is consulted exactly when the fetch is
  rejected, and the strategy throws exactly when the fetch is rejected and
  \<open>cache.match\<close> finds no entry for the request. For a path that \<open>handleRequest\<close> routes
  to \<open>networkFirst\<close>, the page receives the network's answer whatever its status, and
  \<open>handleOffline\<close> answers when the fetch is rejected and the match in the dynamic
  partition finds no entry.
\<close>

theorem networkFirst_error_response:
  fixes net :: network
  shows
  "(net (length (fetched (trace s))) (url rq) = Some nr \<and> \<not> ok nr \<longrightarrow>
      networkFirst net rq c s = (Inr (Response nr), s\<lparr>trace := trace s @ [Fetch (url rq)]\<rparr>)) \<and>
   (CacheMatch c (url rq) \<in> set (drop (length (trace s)) (trace (snd (networkFirst net rq c s))))
      \<longleftrightarrow> net (length (fetched (trace s))) (url rq) = None) \<and>
   ((\<exists>e. fst (networkFirst net rq c s) = Inl e)
      \<longleftrightarrow> net (length (fetched (trace s))) (url rq) = None \<and> matching s c rq = None) \<and>
   (\<not> isStaticAsset (pathname rq) \<and> \<not> isImage (pathname rq) \<and> \<not> isPage (pathname rq) \<longrightarrow>
      (net (length (fetched (trace s))) (url rq) = Some nr \<longrightarrow>
         fst (handleRequest net rq s) = Response nr) \<and>
      (net (length (fetched (trace s))) (url rq) = None \<and>
       matching s DYNAMIC_CACHE rq = None \<longrightarrow>
         handleRequest net rq s = handleOffline rq (snd (networkFirst net rq DYNAMIC_CACHE s))))"
  by (auto simp: networkFirst_def handleRequest_def cacheMatchRequest_def fetch_def
      split: option.splits)

lemma rq_api_route:
  "\<not> isStaticAsset (pathname rq_api) \<and> \<not> isImage (pathname rq_api) \<and> \<not> isPage (pathname rq_api)"
  by (simp add: isStaticAsset_def isImage_def isPage_def rq_api_def static_patterns_def
      cacheFirst_patterns_def staleWhileRevalidate_patterns_def endsWith_def suffix_to_prefix)

theorem networkFirst_error_response_witness:
  "(failing 0 (url rq_api) = Some not_found \<and> \<not> ok not_found \<and>
    networkFirst failing rq_api DYNAMIC_CACHE empty_state =
      (Inr (Response not_found), empty_state\<lparr>trace := [Fetch (url rq_api)]\<rparr>) \<and>
    fst (handleRequest failing rq_api empty_state) = Response not_found) \<and>
   (offline 0 (url rq_api) = None \<and> entry empty_state DYNAMIC_CACHE (url rq_api) = None \<and>
    handleRequest offline rq_api empty_state =
      handleOffline rq_api (snd (networkFirst offline rq_api DYNAMIC_CACHE empty_state)))"
proof -
  have nf: "failing (length (fetched (trace empty_state))) (url rq_api) = Some not_found"
    by (simp add: failing_def)
  have off: "offline (length (fetched (trace empty_state))) (url rq_api) = None"
    by (simp add: offline_def)
  have miss: "matching empty_state DYNAMIC_CACHE rq_api = None"
    by simp
  show ?thesis
    using nf off miss rq_api_route
      networkFirst_error_response [of failing empty_state rq_api not_found DYNAMIC_CACHE]
      networkFirst_error_response [of offline empty_state rq_api not_found DYNAMIC_CACHE]
    by simp
qed

section \<open>Stale-while-revalidate\<close>

lemma rq_page_route:
  "\<not> isStaticAsset (pathname rq_page) \<and> \<not> isImage (pathname rq_page) \<and>
   \<not> isApiCall (pathname rq_page) \<and> isPage (pathname rq_page)"
  by (simp add: isStaticAsset_def isImage_def isPage_def isApiCall_def rq_page_def
      static_patterns_def cacheFirst_patterns_def staleWhileRevalidate_patterns_def
      networkFirst_patterns_def endsWith_def suffix_to_prefix)

lemma staleWhileRevalidate_hit:
  "matching s c rq = Some r \<Longrightarrow> fst (staleWhileRevalidate net rq c s) = Inr (Response r)"
  by (simp add: staleWhileRevalidate_def cacheMatchRequest_def split: prod.splits)

lemma staleWhileRevalidate_miss:
  "matching s c rq = None \<Longrightarrow> net (length (fetched (trace s))) (url rq) = Some nr \<Longrightarrow>
   fst (staleWhileRevalidate net rq c s) = Inr (Response nr)"
  by (simp add: staleWhileRevalidate_def networkResponsePromise_def cacheMatchRequest_def
      fetch_def fetched_append)

lemma staleWhileRevalidate_refresh:
  "net (length (fetched (trace s))) (url rq) = Some nr \<Longrightarrow> ok nr \<Longrightarrow>
   put_accepts (url rq) (rmethod rq) nr \<Longrightarrow>
   entry (snd (staleWhileRevalidate net rq c s)) c (url rq) = Some nr"
  by (auto simp: staleWhileRevalidate_def networkResponsePromise_def cacheMatchRequest_def
      fetch_def fetched_append entry_cachePut split: option.splits)

text \<open>
  Claim C3. With a cached entry \<open>staleWhileRevalidate\<close> returns it, and with none and an
  answering network it returns the answer (the three lemmas above). With no cached entry
  and a rejected fetch it does not throw: the \<open>catch\<close> of the refresh has turned the
  rejection into \<open>undefined\<close>, and that is the value returned, for every network, request,
  partition and state. So for the page request \<open>rq_page\<close>, offline and with nothing cached
  for it, \<open>handleRequest\<close> answers \<open>undefined\<close> and never reaches \<open>handleOffline\<close>, which
  would have served the cached offline page.
\<close>

theorem staleWhileRevalidate_never_throws:
  "fst (staleWhileRevalidate net rq c s) \<noteq> Inl e \<and>
   entry offline_ready DYNAMIC_CACHE (url rq_page) = None \<and>
   offline 0 (url rq_page) = None \<and>
   fst (staleWhileRevalidate offline rq_page DYNAMIC_CACHE offline_ready) = Inr Undefined \<and>
   fst (handleRequest offline rq_page offline_ready) = Undefined \<and>
   fst (handleOffline rq_page offline_ready) = Response page_response"
proof -
  have never: "fst (staleWhileRevalidate net rq c s) \<noteq> Inl e"
    by (simp add: staleWhileRevalidate_def split: prod.splits option.splits)
  have miss: "entry offline_ready DYNAMIC_CACHE (url rq_page) = None"
    by (simp add: entry_def partition_of_def offline_ready_def STATIC_CACHE_def
        DYNAMIC_CACHE_def)
  have swr: "fst (staleWhileRevalidate offline rq_page DYNAMIC_CACHE offline_ready) = Inr Undefined"
    using miss
    by (simp add: staleWhileRevalidate_def networkResponsePromise_def cacheMatchRequest_def
        matching_def fetch_def offline_def split: prod.splits del: url_examples)
  have hr: "fst (handleRequest offline rq_page offline_ready) = Undefined"
    using swr rq_page_route
    by (cases "staleWhileRevalidate offline rq_page DYNAMIC_CACHE offline_ready")
      (simp add: handleRequest_def)
  have ho: "fst (handleOffline rq_page offline_ready) = Response page_response"
    by (simp add: handleOffline_def cacheMatch_def match_result_def entry_def partition_of_def
        cachesOpen_def offline_ready_def rq_page_def)
  show ?thesis
    using never miss swr hr ho by (simp add: offline_def)
qed

section \<open>The offline fallback\<close>

lemma rq_img_route: "isStaticAsset (pathname rq_img) \<and> isImage (pathname rq_img)"
  by (simp add: isStaticAsset_def isImage_def rq_img_def static_patterns_def
      cacheFirst_patterns_def)

lemma entry_offline_ready:
  "entry offline_ready STATIC_CACHE ''/offline.html'' = Some page_response \<and>
   entry offline_ready STATIC_CACHE ''/assets/images/placeholder-product.jpg'' = Some page_response"
  by (simp add: entry_def partition_of_def offline_ready_def)

text \<open>
  Claim C6, as stated, fails twice. \<open>handleOffline\<close> hands on what \<open>cache.match\<close>
  found, and for a navigation request with no \<open>/offline.html\<close> in the static partition
  that is \<open>undefined\<close>, no response. And its second test is \<open>isImage\<close> on the path, not
  the class of the request: \<open>/assets/images/logo.png\<close> is classified static-asset, not
  image, and still gets the placeholder instead of the 503 response.
\<close>

theorem handleOffline_no_response:
  "mode rq_page = ''navigate'' \<and>
   fst (handleOffline rq_page empty_state) = Undefined \<and>
   mode rq_img \<noteq> ''navigate'' \<and>
   classify_spec (pathname rq_img) = StaticAsset \<and>
   fst (handleOffline rq_img offline_ready) = Response page_response \<and>
   page_response \<noteq> offline_response"
proof -
  have nav: "mode rq_page = ''navigate'' \<and> fst (handleOffline rq_page empty_state) = Undefined"
    by (simp add: handleOffline_def cacheMatch_def match_result_def rq_page_def)
  have img: "mode rq_img \<noteq> ''navigate''"
    by (simp add: rq_img_def)
  have cls: "classify_spec (pathname rq_img) = StaticAsset"
    using rq_img_route by (simp add: classify_spec_def)
  have ph: "fst (handleOffline rq_img offline_ready) = Response page_response"
    using img rq_img_route entry_offline_ready
    by (simp add: handleOffline_def cacheMatch_def match_result_def)
  have ne: "page_response \<noteq> offline_response"
    by (simp add: page_response_def offline_response_def)
  show ?thesis
    using nav img cls ph ne by simp
qed

text \<open>
  Claim C6, amended. \<open>handleOffline\<close> issues no network request and leaves every cache
  entry as it is; having no \<open>throw\<close> and no network call, it always returns. For a
  navigation request it returns the entry stored under \<open>/offline.html\<close> in the static
  partition when there is one, as it was cached. Otherwise, for a path that matches an
  image pattern (the test \<open>isImage\<close>, whatever type \<open>handleRequest\<close> gave the request), it
  returns the entry stored under the placeholder image when there is one. Otherwise it
  returns the synthesized response: status 503, a JSON body, content type
  \<open>application/json\<close>.
\<close>

theorem handleOffline_spec:
  "fetched (trace (snd (handleOffline rq s))) = fetched (trace s) \<and>
   (\<forall>n k. entry (snd (handleOffline rq s)) n k = entry s n k) \<and>
   (mode rq = ''navigate'' \<and> entry s STATIC_CACHE ''/offline.html'' = Some r \<longrightarrow>
      fst (handleOffline rq s) = Response r) \<and>
   (mode rq \<noteq> ''navigate'' \<and> isImage (pathname rq) \<and>
    entry s STATIC_CACHE ''/assets/images/placeholder-product.jpg'' = Some r \<longrightarrow>
      fst (handleOffline rq s) = Response r) \<and>
   (mode rq \<noteq> ''navigate'' \<and> \<not> isImage (pathname rq) \<longrightarrow>
      fst (handleOffline rq s) = Response offline_response \<and>
      status offline_response = 503 \<and>
      headers offline_response = [(''Content-Type'', ''application/json'')])"
  by (auto simp: handleOffline_def cacheMatch_def match_result_def fetched_append
      offline_response_def)

theorem handleOffline_spec_witness:
  "(mode rq_page = ''navigate'' \<and>
    entry offline_ready STATIC_CACHE ''/offline.html'' = Some page_response \<and>
    fst (handleOffline rq_page offline_ready) = Response page_response) \<and>
   (mode rq_img \<noteq> ''navigate'' \<and> isImage (pathname rq_img) \<and>
    entry offline_ready STATIC_CACHE ''/assets/images/placeholder-product.jpg''
      = Some page_response \<and>
    fst (handleOffline rq_img offline_ready) = Response page_response) \<and>
   (mode rq_api \<noteq> ''navigate'' \<and> \<not> isImage (pathname rq_api) \<and>
    fst (handleOffline rq_api empty_state) = Response offline_response)"
proof -
  have nav: "mode rq_page = ''navigate''"
    by (simp add: rq_page_def)
  have img: "mode rq_img \<noteq> ''navigate''"
    by (simp add: rq_img_def)
  have api: "mode rq_api \<noteq> ''navigate''"
    by (simp add: rq_api_def)
  show ?thesis
    using nav img api rq_img_route rq_api_route entry_offline_ready
      handleOffline_spec [of rq_page offline_ready page_response]
      handleOffline_spec [of rq_img offline_ready page_response]
      handleOffline_spec [of rq_api empty_state page_response]
    by simp
qed

section \<open>Activate\<close>

lemma caches_delete_old:
  "caches (delete_old s n) =
     (if n \<in> set known_partitions then caches s else filter (\<lambda>np. fst np \<noteq> n) (caches s))"
  by (auto simp: delete_old_def known_partitions_def cachesDelete_def AList.delete_eq
      intro: filter_cong)

lemma caches_foldl_delete_old:
  "caches (foldl delete_old s ns) =
     filter (\<lambda>np. fst np \<in> set known_partitions \<or> fst np \<notin> set ns) (caches s)"
proof (induction ns arbitrary: s)
  case Nil
  show ?case by simp
next
  case (Cons n ns)
  show ?case
    by (auto simp: Cons.IH caches_delete_old intro: filter_cong)
qed

text \<open>
  Claim C5, as stated, fails: activation deletes and never creates. Where the new
  version's install has opened only the static partition beside an old one, the
  partitions left are the static one alone, not the three known ones.
\<close>

theorem activate_counterexample:
  "cachesKeys upgraded = [''vaperelax-static-v0'', STATIC_CACHE] \<and>
   cachesKeys (activate upgraded) = [STATIC_CACHE] \<and>
   set (cachesKeys (activate upgraded)) \<noteq> set known_partitions"
  by (simp add: activate_def cachesKeys_def delete_old_def cachesDelete_def upgraded_def
      empty_state_def known_partitions_def STATIC_CACHE_def DYNAMIC_CACHE_def IMAGE_CACHE_def)

text \<open>
  Claim C5, amended. After an activate pass, from every starting cache storage, the
  partitions left are exactly the starting partitions whose name is one of the three
  known names, each with its contents and in the starting order: every partition of
  another name is deleted, no known one is deleted, and none is created.
\<close>

theorem activate_keeps_known:
  "caches (activate s) = filter (\<lambda>np. fst np \<in> set known_partitions) (caches s) \<and>
   cachesKeys (activate s) = filter (\<lambda>n. n \<in> set known_partitions) (cachesKeys s) \<and>
   set (cachesKeys (activate s)) = set (cachesKeys s) \<inter> set known_partitions"
proof -
  have c: "caches (activate s) = filter (\<lambda>np. fst np \<in> set known_partitions) (caches s)"
    by (auto simp: activate_def cachesKeys_def caches_foldl_delete_old intro: filter_cong)
  have k: "cachesKeys (activate s) = filter (\<lambda>n. n \<in> set known_partitions) (cachesKeys s)"
    by (simp add: cachesKeys_def c filter_map comp_def)
  show ?thesis
    using c k by auto
qed

section \<open>Install\<close>

lemma addAll_fetch_ok:
  "all_fetch_ok net (length (fetched (trace s))) us \<Longrightarrow>
   addAll_fetch net us s =
     (Inr (fetched_pairs net (length (fetched (trace s))) us),
      s\<lparr>trace := trace s @ map Fetch us\<rparr>)"
proof (induction us arbitrary: s)
  case Nil
  show ?case by simp
next
  case (Cons u us)
  from Cons.prems obtain r where r: "net (length (fetched (trace s))) u = Some r"
    "addAll_accepts r" "http_url u"
    and rest: "all_fetch_ok net (Suc (length (fetched (trace s)))) us"
    by (auto split: option.splits)
  let ?s1 = "s\<lparr>trace := trace s @ [Fetch u]\<rparr>"
  from rest have "all_fetch_ok net (length (fetched (trace ?s1))) us"
    by (simp add: fetched_append)
  from Cons.IH [OF this] r show ?case
    by (simp add: fetch_def fetched_append)
qed

lemma addAll_fetch_fail:
  "\<not> all_fetch_ok net (length (fetched (trace s))) us \<Longrightarrow>
   \<exists>t. addAll_fetch net us s = (Inl TypeError, s\<lparr>trace := t\<rparr>)"
proof (induction us arbitrary: s)
  case Nil
  then show ?case by simp
next
  case (Cons u us)
  let ?s1 = "s\<lparr>trace := trace s @ [Fetch u]\<rparr>"
  show ?case
  proof (cases "http_url u")
    case False
    then have "addAll_fetch net (u # us) s = (Inl TypeError, s\<lparr>trace := trace s\<rparr>)"
      by simp
    then show ?thesis by blast
  next
    case True
    obtain rs s2 where run: "addAll_fetch net us ?s1 = (rs, s2)"
      by (cases "addAll_fetch net us ?s1")
    have s2: "\<exists>t. s2 = s\<lparr>trace := t\<rparr>"
    proof (cases "all_fetch_ok net (length (fetched (trace ?s1))) us")
      case True
      from addAll_fetch_ok [OF this] run show ?thesis by auto
    next
      case False
      from Cons.IH [OF this] run show ?thesis by auto
    qed
    show ?thesis
    proof (cases "net (length (fetched (trace s))) u")
      case None
      with True run s2 show ?thesis
        by (auto simp: fetch_def)
    next
      case (Some r)
      show ?thesis
      proof (cases "addAll_accepts r")
        case False
        with Some True run s2 show ?thesis
          by (auto simp: fetch_def split: sum.splits)
      next
        case acc: True
        with Some True Cons.prems have "\<not> all_fetch_ok net (length (fetched (trace ?s1))) us"
          by (simp add: fetched_append)
        from Cons.IH [OF this] run have "rs = Inl TypeError"
          by auto
        with Some True run s2 show ?thesis
          by (auto simp: fetch_def)
      qed
    qed
  qed
qed

lemma map_of_fetched_pairs:
  "all_fetch_ok net n us \<Longrightarrow> distinct us \<Longrightarrow> i < length us \<Longrightarrow>
   map_of (fetched_pairs net n us) (us ! i) = net (n + i) (us ! i)"
proof (induction us arbitrary: n i)
  case Nil
  then show ?case by simp
next
  case (Cons u us)
  from Cons.prems(1) obtain r where r: "net n u = Some r"
    and rest: "all_fetch_ok net (Suc n) us"
    by (auto split: option.splits)
  show ?case
  proof (cases i)
    case 0
    with r show ?thesis by simp
  next
    case (Suc j)
    with Cons.prems have j: "j < length us" "distinct us" "us ! j \<noteq> u"
      by auto
    from Cons.IH [OF rest j(2) j(1)] r Suc j(3) show ?thesis
      by simp
  qed
qed

lemma all_fetch_ok_nth:
  "all_fetch_ok net n us \<Longrightarrow> i < length us \<Longrightarrow>
   \<exists>r. net (n + i) (us ! i) = Some r \<and> addAll_accepts r"
proof (induction us arbitrary: n i)
  case Nil
  then show ?case by simp
next
  case (Cons u us)
  show ?case
  proof (cases i)
    case 0
    with Cons.prems show ?thesis by (auto split: option.splits)
  next
    case (Suc j)
    with Cons.prems Cons.IH [of "Suc n" j] show ?thesis by simp
  qed
qed

lemma fst_fetched_pairs: "all_fetch_ok net n us \<Longrightarrow> map fst (fetched_pairs net n us) = us"
  by (induction us arbitrary: n) (auto split: option.splits)

lemma skip_waiting_putAll [simp]: "skip_waiting (putAll name xs s) = skip_waiting s"
  by (induction name xs s rule: putAll.induct) (simp_all add: store_entry_def)

lemma entry_putAll:
  "distinct (map fst xs) \<Longrightarrow>
   entry (putAll name xs s) name k =
     (case map_of xs k of None \<Rightarrow> entry s name k | Some r \<Rightarrow> Some r)"
proof (induction name xs s rule: putAll.induct)
  case (1 name s)
  show ?case by simp
next
  case (2 name u r xs s)
  then have "map_of xs u = None"
    by (simp add: map_of_eq_None_iff)
  with 2 show ?case
    by (auto simp: entry_store_entry split: option.splits)
qed

lemma STATIC_ASSETS_distinct: "distinct STATIC_ASSETS"
  by (simp add: STATIC_ASSETS_def)

lemma install_resolves: "fst (install net s) = Inr ()"
  by (simp add: install_def split: prod.splits sum.splits)

text \<open>
  Claim C4, as stated, fails: with every manifest fetch rejected, the promise the install
  listener gives to \<open>waitUntil\<close> still resolves, so the install is not failed and the new
  version goes on to activation.
\<close>

theorem install_counterexample:
  "\<not> all_fetch_ok offline 0 STATIC_ASSETS \<and> fst (install offline empty_state) = Inr ()"
  using install_resolves [of offline empty_state]
  by (simp add: STATIC_ASSETS_def offline_def)

text \<open>
  Claim C4, amended. The promise of the install listener always resolves: a failed
  pre-population is caught and logged, and the install is not failed by it. What is
  all-or-nothing is the pre-population and the skip-waiting signal. Only when the fetch
  of every manifest entry is answered with a response that \<open>cache.addAll\<close> accepts
  (status 2xx and not 206, not varying on \<open>*\<close>) are the entries stored in the static
  partition, every one with the response fetched for it, and is \<open>skipWaiting\<close> called.
  When the fetch of any entry is rejected or its answer refused, no cache entry changes
  and \<open>skipWaiting\<close> is not called.
\<close>

theorem install_spec:
  fixes net :: network
  shows
  "fst (install net s) = Inr () \<and>
   skip_waiting (snd (install net s)) =
     (skip_waiting s \<or> all_fetch_ok net (length (fetched (trace s))) STATIC_ASSETS) \<and>
   (all_fetch_ok net (length (fetched (trace s))) STATIC_ASSETS \<longrightarrow>
      (\<forall>i<length STATIC_ASSETS.
         \<exists>r. net (length (fetched (trace s)) + i) (STATIC_ASSETS ! i) = Some r \<and>
             addAll_accepts r \<and>
             entry (snd (install net s)) STATIC_CACHE (STATIC_ASSETS ! i) = Some r)) \<and>
   (\<not> all_fetch_ok net (length (fetched (trace s))) STATIC_ASSETS \<longrightarrow>
      (\<forall>n k. entry (snd (install net s)) n k = entry s n k))"
proof (cases "all_fetch_ok net (length (fetched (trace s))) STATIC_ASSETS")
  case True
  let ?s0 = "cachesOpen STATIC_CACHE s"
  let ?n = "length (fetched (trace s))"
  let ?xs = "fetched_pairs net ?n STATIC_ASSETS"
  let ?s1 = "?s0\<lparr>trace := trace ?s0 @ map Fetch STATIC_ASSETS\<rparr>"
  from True have ok0: "all_fetch_ok net (length (fetched (trace ?s0))) STATIC_ASSETS"
    by (simp add: fetched_append)
  have run: "addAll_fetch net STATIC_ASSETS ?s0 = (Inr ?xs, ?s1)"
    using addAll_fetch_ok [OF ok0] by (simp add: fetched_append)
  have inst: "install net s = (Inr (), (putAll STATIC_CACHE ?xs ?s1)\<lparr>skip_waiting := True\<rparr>)"
    by (simp add: install_def cacheAddAll_def run STATIC_ASSETS_distinct)
  have keys: "distinct (map fst ?xs)"
    using fst_fetched_pairs [OF True] STATIC_ASSETS_distinct by simp
  have stored: "\<exists>r. net (?n + i) (STATIC_ASSETS ! i) = Some r \<and> addAll_accepts r \<and>
      entry (putAll STATIC_CACHE ?xs ?s1) STATIC_CACHE (STATIC_ASSETS ! i) = Some r"
    if i: "i < length STATIC_ASSETS" for i
  proof -
    from all_fetch_ok_nth [OF True i] obtain r where
      r: "net (?n + i) (STATIC_ASSETS ! i) = Some r" "addAll_accepts r"
      by blast
    have "map_of ?xs (STATIC_ASSETS ! i) = Some r"
      using map_of_fetched_pairs [OF True STATIC_ASSETS_distinct i] r(1) by simp
    then have "entry (putAll STATIC_CACHE ?xs ?s1) STATIC_CACHE (STATIC_ASSETS ! i) = Some r"
      by (simp add: entry_putAll [OF keys])
    with r show ?thesis
      by blast
  qed
  have e: "entry (t\<lparr>skip_waiting := b\<rparr>) n k = entry t n k" for t b n k
    by (simp add: entry_def partition_of_def)
  show ?thesis
    using True stored by (simp add: inst e)
next
  case False
  let ?s0 = "cachesOpen STATIC_CACHE s"
  from False have "\<not> all_fetch_ok net (length (fetched (trace ?s0))) STATIC_ASSETS"
    by (simp add: fetched_append)
  from addAll_fetch_fail [OF this] obtain t where
    run: "addAll_fetch net STATIC_ASSETS ?s0 = (Inl TypeError, ?s0\<lparr>trace := t\<rparr>)"
    by blast
  have inst: "install net s = (Inr (), ?s0\<lparr>trace := t\<rparr>)"
    by (simp add: install_def cacheAddAll_def run)
  have sw: "skip_waiting ?s0 = skip_waiting s"
    by (simp add: cachesOpen_def)
  show ?thesis
    using False by (simp add: inst sw)
qed

theorem install_spec_witness:
  "(all_fetch_ok online 0 STATIC_ASSETS \<and>
    fst (install online empty_state) = Inr () \<and>
    skip_waiting (snd (install online empty_state)) \<and>
    STATIC_ASSETS ! 6 = ''/offline.html'' \<and>
    online 6 ''/offline.html'' = Some page_response \<and>
    entry (snd (install online empty_state)) STATIC_CACHE ''/offline.html''
      = Some page_response) \<and>
   (\<not> all_fetch_ok offline 0 STATIC_ASSETS \<and>
    fst (install offline empty_state) = Inr () \<and>
    \<not> skip_waiting (snd (install offline empty_state)) \<and>
    entry (snd (install offline empty_state)) STATIC_CACHE ''/offline.html'' = None) \<and>
   (\<not> all_fetch_ok ranged 0 STATIC_ASSETS \<and>
    \<not> skip_waiting (snd (install ranged empty_state)) \<and>
    entry (snd (install ranged empty_state)) STATIC_CACHE ''/offline.html'' = None)"
proof -
  have acc: "addAll_accepts page_response"
    by (simp add: addAll_accepts_def)
  have on: "all_fetch_ok online (length (fetched (trace empty_state))) STATIC_ASSETS"
    using acc by (simp add: STATIC_ASSETS_def online_def)
  have off: "\<not> all_fetch_ok offline (length (fetched (trace empty_state))) STATIC_ASSETS"
    by (simp add: STATIC_ASSETS_def offline_def)
  have rg: "\<not> all_fetch_ok ranged (length (fetched (trace empty_state))) STATIC_ASSETS"
    by (simp add: STATIC_ASSETS_def ranged_def addAll_accepts_def)
  have ix: "(6::nat) < length STATIC_ASSETS" "STATIC_ASSETS ! 6 = ''/offline.html''"
    by (simp_all add: STATIC_ASSETS_def)
  have net6: "online 6 ''/offline.html'' = Some page_response"
    by (simp add: online_def)
  have sw: "\<not> skip_waiting empty_state"
    by (simp add: empty_state_def)
  show ?thesis
    using on off rg ix net6 sw install_spec [of online empty_state]
      install_spec [of offline empty_state] install_spec [of ranged empty_state]
    by auto
qed

section \<open>The cache-urls command\<close>

lemma fetched_cacheUrls_loop:
  "fetched (trace (cacheUrls_loop net urls s)) = fetched (trace s) @ urls"
proof (induction urls arbitrary: s)
  case Nil
  show ?case by simp
next
  case (Cons u urls)
  show ?case
    by (simp add: Cons.IH fetch_def fetched_append split: option.splits prod.splits sum.splits)
      (auto simp: cachePut_def store_entry_def fetched_append)
qed

lemma caches_putAll_cong:
  "caches s = caches s' \<Longrightarrow> caches (putAll name xs s) = caches (putAll name xs s')"
proof (induction name xs s arbitrary: s' rule: putAll.induct)
  case (1 name s)
  then show ?case by simp
next
  case (2 name u r xs s)
  have "caches (store_entry name u r s) = caches (store_entry name u r s')"
    using "2.prems" by (simp add: store_entry_def partition_of_def)
  from "2.IH" [OF this] show ?case
    by simp
qed

lemma caches_cacheUrls_loop:
  assumes "fixed_network net"
  shows "caches (cacheUrls_loop net urls s) = caches (putAll DYNAMIC_CACHE (stored_pairs net urls) s)"
proof (induction urls arbitrary: s)
  case Nil
  show ?case by simp
next
  case (Cons u urls)
  let ?s1 = "s\<lparr>trace := trace s @ [Fetch u]\<rparr>"
  have net0: "net (length (fetched (trace s))) u = net 0 u"
    using assms by (simp add: fixed_network_def)
  have same: "caches (putAll DYNAMIC_CACHE xs ?s1) = caches (putAll DYNAMIC_CACHE xs s)" for xs
    by (rule caches_putAll_cong) simp
  show ?case
  proof (cases "net 0 u")
    case None
    with net0 show ?thesis
      by (simp add: fetch_def Cons.IH same)
  next
    case (Some r)
    show ?thesis
    proof (cases "ok r \<and> put_accepts u ''GET'' r")
      case True
      let ?s2 = "store_entry DYNAMIC_CACHE u r (?s1\<lparr>trace := trace ?s1 @ [CachePut DYNAMIC_CACHE u]\<rparr>)"
      have "caches ?s2 = caches (store_entry DYNAMIC_CACHE u r s)"
        by (simp add: store_entry_def partition_of_def)
      then have "caches (putAll DYNAMIC_CACHE xs ?s2)
          = caches (putAll DYNAMIC_CACHE xs (store_entry DYNAMIC_CACHE u r s))" for xs
        by (rule caches_putAll_cong)
      with Some True net0 show ?thesis
        by (simp add: fetch_def cachePut_def Cons.IH)
    next
      case False
      let ?s2 = "?s1\<lparr>trace := trace ?s1 @ [CachePut DYNAMIC_CACHE u]\<rparr>"
      have "caches (putAll DYNAMIC_CACHE xs ?s2) = caches (putAll DYNAMIC_CACHE xs s)" for xs
        by (rule caches_putAll_cong) simp
      with Some False net0 same show ?thesis
        by (auto simp: fetch_def cachePut_def Cons.IH)
    qed
  qed
qed

lemma caches_putAll:
  "map_of (caches s) name = Some p \<Longrightarrow>
   caches (putAll name xs s) = AList.update name (put_entries xs p) (caches s)"
proof (induction xs arbitrary: s p)
  case Nil
  then show ?case by (simp add: update_triv)
next
  case (Cons x xs)
  obtain u r where x: "x = (u, r)"
    by (cases x)
  let ?s1 = "store_entry name u r s"
  have c1: "caches ?s1 = AList.update name (put_entry u r p) (caches s)"
    using Cons.prems by (simp add: store_entry_def partition_of_def)
  then have "map_of (caches ?s1) name = Some (put_entry u r p)"
    by (simp add: update_conv')
  from Cons.IH [OF this] c1 x show ?case
    by simp
qed

lemma put_entries_split:
  "put_entries xs p = filter (\<lambda>e. fst e \<notin> fst ` set xs) p @ put_entries xs []"
proof (induction xs arbitrary: p)
  case Nil
  show ?case by simp
next
  case (Cons x xs)
  obtain u r where x: "x = (u, r)"
    by (cases x)
  have del: "AList.delete u p = filter (\<lambda>e. fst e \<noteq> u) p"
    by (auto simp: AList.delete_eq intro: filter_cong)
  have "put_entries (x # xs) p = put_entries xs (put_entry u r p)"
    by (simp add: x)
  also have "\<dots> = filter (\<lambda>e. fst e \<notin> fst ` set xs) (put_entry u r p) @ put_entries xs []"
    by (rule Cons.IH)
  also have "filter (\<lambda>e. fst e \<notin> fst ` set xs) (put_entry u r p)
      = filter (\<lambda>e. fst e \<notin> fst ` set (x # xs)) p @ filter (\<lambda>e. fst e \<notin> fst ` set xs) [(u, r)]"
    by (auto simp: put_entry_def del x intro: filter_cong)
  also have "(filter (\<lambda>e. fst e \<notin> fst ` set (x # xs)) p
        @ filter (\<lambda>e. fst e \<notin> fst ` set xs) [(u, r)]) @ put_entries xs []
      = filter (\<lambda>e. fst e \<notin> fst ` set (x # xs)) p @ put_entries xs (put_entry u r [])"
    using Cons.IH [of "put_entry u r []"] by (simp add: put_entry_def)
  also have "put_entries xs (put_entry u r []) = put_entries (x # xs) []"
    by (simp add: x)
  finally show ?case .
qed

lemma keys_put_entries: "fst ` set (put_entries xs p) = fst ` set p \<union> fst ` set xs"
proof (induction xs arbitrary: p)
  case Nil
  show ?case by simp
next
  case (Cons x xs)
  obtain u r where x: "x = (u, r)"
    by (cases x)
  have "fst ` set (put_entry u r p) = insert u (fst ` set p)"
    by (auto simp: put_entry_def AList.delete_eq image_iff)
  then show ?case
    by (auto simp: Cons.IH x)
qed

lemma put_entries_idem: "put_entries xs (put_entries xs p) = put_entries xs p"
proof -
  have "filter (\<lambda>e. fst e \<notin> fst ` set xs) (put_entries xs []) = []"
    using keys_put_entries [of xs "[]"] by (auto simp: filter_empty_conv)
  then have "filter (\<lambda>e. fst e \<notin> fst ` set xs) (put_entries xs p)
      = filter (\<lambda>e. fst e \<notin> fst ` set xs) p"
    by (subst put_entries_split) simp
  then show ?thesis
    using put_entries_split [of xs "put_entries xs p"] put_entries_split [of xs p] by simp
qed

lemma cacheUrls_idem:
  assumes "fixed_network net"
  shows "caches (cacheUrls net urls (cacheUrls net urls s)) = caches (cacheUrls net urls s)"
proof -
  let ?xs = "stored_pairs net urls"
  have "map_of (caches (cachesOpen DYNAMIC_CACHE s)) DYNAMIC_CACHE \<noteq> None"
    by (cases "map_of (caches s) DYNAMIC_CACHE") (simp_all add: cachesOpen_def)
  then obtain p where p: "map_of (caches (cachesOpen DYNAMIC_CACHE s)) DYNAMIC_CACHE = Some p"
    by blast
  let ?cs = "caches (cachesOpen DYNAMIC_CACHE s)"
  let ?s1 = "cacheUrls net urls s"
  have c1: "caches ?s1 = AList.update DYNAMIC_CACHE (put_entries ?xs p) ?cs"
    using caches_putAll [OF p, of ?xs] by (simp add: cacheUrls_def caches_cacheUrls_loop [OF assms])
  then have m1: "map_of (caches ?s1) DYNAMIC_CACHE = Some (put_entries ?xs p)"
    by (simp add: update_conv')
  then have o1: "caches (cachesOpen DYNAMIC_CACHE ?s1) = caches ?s1"
    by (simp add: cachesOpen_def)
  with m1 have "map_of (caches (cachesOpen DYNAMIC_CACHE ?s1)) DYNAMIC_CACHE
      = Some (put_entries ?xs p)"
    by simp
  from caches_putAll [OF this, of ?xs]
  have "caches (cacheUrls net urls ?s1)
      = AList.update DYNAMIC_CACHE (put_entries ?xs (put_entries ?xs p)) (caches ?s1)"
    by (simp add: cacheUrls_def [of net urls ?s1] caches_cacheUrls_loop [OF assms] o1)
  then show ?thesis
    by (simp add: put_entries_idem c1)
qed

lemma entry_cacheUrls_loop:
  assumes "fixed_network net"
  shows "entry (cacheUrls_loop net urls s) c k =
     (if c = DYNAMIC_CACHE \<and> k \<in> set urls \<and>
         (\<exists>r. net 0 k = Some r \<and> ok r \<and> put_accepts k ''GET'' r)
      then net 0 k
      else entry s c k)"
proof (induction urls arbitrary: s)
  case Nil
  show ?case by simp
next
  case (Cons v urls)
  have net0: "net (length (fetched (trace s))) v = net 0 v"
    using assms by (simp add: fixed_network_def)
  let ?s1 = "s\<lparr>trace := trace s @ [Fetch v]\<rparr>"
  show ?case
  proof (cases "net 0 v")
    case None
    with net0 show ?thesis
      by (auto simp: Cons.IH fetch_def)
  next
    case (Some r)
    obtain res s2 where put: "cachePut DYNAMIC_CACHE v ''GET'' r ?s1 = (res, s2)"
      by (cases "cachePut DYNAMIC_CACHE v ''GET'' r ?s1")
    have e2: "entry s2 c k =
        (if put_accepts v ''GET'' r \<and> c = DYNAMIC_CACHE \<and> k = v then Some r else entry s c k)"
      using entry_cachePut [of DYNAMIC_CACHE v "''GET''" r ?s1 c k] put by simp
    show ?thesis
    proof (cases "ok r")
      case False
      with Some net0 show ?thesis
        by (auto simp: Cons.IH fetch_def)
    next
      case True
      with Some net0 put e2 show ?thesis
        by (cases res) (auto simp: Cons.IH fetch_def)
    qed
  qed
qed

lemma distinct_put_entry:
  "distinct (map fst p) \<Longrightarrow> distinct (map fst (put_entry u r p))"
  by (simp add: put_entry_def delete_keys distinct_removeAll)

lemma partition_of_cachePut:
  "partition_of (snd (cachePut c u m r s)) c =
     (if put_accepts u m r then put_entry u r (partition_of s c) else partition_of s c)"
  by (simp add: cachePut_def store_entry_def partition_of_def update_conv')

lemma distinct_cacheUrls_loop:
  "distinct (map fst (partition_of s DYNAMIC_CACHE)) \<Longrightarrow>
   distinct (map fst (partition_of (cacheUrls_loop net urls s) DYNAMIC_CACHE))"
proof (induction urls arbitrary: s)
  case Nil
  then show ?case by simp
next
  case (Cons u urls)
  let ?s1 = "s\<lparr>trace := trace s @ [Fetch u]\<rparr>"
  have d1: "distinct (map fst (partition_of ?s1 DYNAMIC_CACHE))"
    using Cons.prems by (simp add: partition_of_def)
  have d2: "distinct (map fst (partition_of (snd (cachePut DYNAMIC_CACHE u ''GET'' r ?s1))
      DYNAMIC_CACHE))" for r
    using d1 by (simp add: partition_of_cachePut distinct_put_entry)
  show ?case
  proof (cases "net (length (fetched (trace s))) u")
    case None
    with Cons.IH [OF d1] show ?thesis
      by (simp add: fetch_def)
  next
    case (Some r)
    obtain res s2 where put: "cachePut DYNAMIC_CACHE u ''GET'' r ?s1 = (res, s2)"
      by (cases "cachePut DYNAMIC_CACHE u ''GET'' r ?s1")
    with d2 [of r] have "distinct (map fst (partition_of s2 DYNAMIC_CACHE))"
      by simp
    from Cons.IH [OF this] Cons.IH [OF d1] Some put show ?thesis
      by (cases res) (simp_all add: fetch_def)
  qed
qed

lemma partition_of_cachesOpen [simp]: "partition_of (cachesOpen c s) n = partition_of s n"
  by (auto simp: partition_of_def cachesOpen_def split: option.splits if_splits)

text \<open>
  Claim C9. Under a fixed network, running \<open>cacheUrls\<close> on a URL list any number of
  times (once or more) leaves the cache storage as one run leaves it. After a run, the
  dynamic partition holds, for every URL of the list whose answer is 2xx and accepted by
  \<open>cache.put\<close>, that answer, whatever happened to the other URLs of the list, and every
  other entry of the cache storage is as before; every URL of the list has been fetched,
  in order, a rejected fetch or a refused put stopping nothing; and a partition that had
  at most one entry per URL still has.
\<close>

theorem cacheUrls_idempotent:
  assumes "fixed_network net"
  shows
  "caches (((cacheUrls net urls) ^^ Suc n) s) = caches (cacheUrls net urls s) \<and>
   (\<forall>c k. entry (cacheUrls net urls s) c k =
      (if c = DYNAMIC_CACHE \<and> k \<in> set urls \<and>
          (\<exists>r. net 0 k = Some r \<and> ok r \<and> put_accepts k ''GET'' r)
       then net 0 k
       else entry s c k)) \<and>
   fetched (trace (cacheUrls net urls s)) = fetched (trace s) @ urls \<and>
   (distinct (map fst (partition_of s DYNAMIC_CACHE)) \<longrightarrow>
      distinct (map fst (partition_of (cacheUrls net urls s) DYNAMIC_CACHE)))"
proof -
  have rep: "caches (((cacheUrls net urls) ^^ Suc n) s) = caches (cacheUrls net urls s)"
  proof (induction n arbitrary: s)
    case 0
    show ?case by simp
  next
    case (Suc n)
    have "((cacheUrls net urls) ^^ Suc (Suc n)) s
        = ((cacheUrls net urls) ^^ Suc n) (cacheUrls net urls s)"
      by (simp only: funpow_Suc_right comp_apply)
    then show ?case
      using Suc.IH [of "cacheUrls net urls s"] cacheUrls_idem [OF assms, of urls s] by simp
  qed
  have stored: "\<forall>c k. entry (cacheUrls net urls s) c k =
      (if c = DYNAMIC_CACHE \<and> k \<in> set urls \<and>
          (\<exists>r. net 0 k = Some r \<and> ok r \<and> put_accepts k ''GET'' r)
       then net 0 k
       else entry s c k)"
    by (simp only: cacheUrls_def entry_cacheUrls_loop [OF assms] entry_cachesOpen) simp
  have fetches: "fetched (trace (cacheUrls net urls s)) = fetched (trace s) @ urls"
    by (simp add: cacheUrls_def fetched_cacheUrls_loop fetched_append)
  have dist: "distinct (map fst (partition_of s DYNAMIC_CACHE)) \<longrightarrow>
      distinct (map fst (partition_of (cacheUrls net urls s) DYNAMIC_CACHE))"
    by (simp add: cacheUrls_def distinct_cacheUrls_loop)
  show ?thesis
    using rep stored fetches dist by blast
qed

theorem cacheUrls_idempotent_witness:
  "fixed_network flaky \<and>
   caches (((cacheUrls flaky some_urls) ^^ Suc 2) empty_state)
     = caches (cacheUrls flaky some_urls empty_state) \<and>
   flaky 0 ''/down'' = None \<and>
   flaky 0 ''/range'' = Some partial_content \<and>
   flaky 0 ''/b'' = Some page_response \<and>
   entry (cacheUrls flaky some_urls empty_state) DYNAMIC_CACHE ''/range'' = None \<and>
   entry (cacheUrls flaky some_urls empty_state) DYNAMIC_CACHE ''/b'' = Some page_response \<and>
   fetched (trace (cacheUrls flaky some_urls empty_state)) = some_urls \<and>
   distinct (map fst (partition_of (cacheUrls flaky some_urls empty_state) DYNAMIC_CACHE))"
proof -
  have fx: "fixed_network flaky"
    by (simp add: fixed_network_def flaky_def)
  have b: "''/b'' \<in> set some_urls" "flaky 0 ''/b'' = Some page_response"
    "flaky 0 ''/down'' = None" "flaky 0 ''/range'' = Some partial_content"
    by (simp_all add: some_urls_def flaky_def)
  have d: "distinct (map fst (partition_of empty_state DYNAMIC_CACHE))"
    by (simp add: partition_of_def empty_state_def)
  have acc: "put_accepts ''/b'' ''GET'' page_response"
    by simp
  show ?thesis
    using fx b d acc
      cacheUrls_idempotent [OF fx, where urls = some_urls and n = 2 and s = empty_state]
    by auto
qed

section \<open>Request classification\<close>

lemma includes_str_sublist: "includes_str s pattern = sublist pattern s"
  by (induction s) (simp_all add: sublist_Cons_right)

text \<open>
  Claim C8. \<open>handleRequest\<close> is the dispatch of the specification: classify the path,
  select the strategy and partition of the class, run it, and answer a thrown error with
  the offline fallback. The classification is a function of the path alone; a class is
  returned exactly when its patterns match and those of no earlier class do, in the order
  static-asset, image, api-call, page, and unclassified is returned exactly when no
  pattern matches. A pattern of a class matches a path when it occurs in it.
\<close>

theorem handleRequest_classification:
  "handleRequest net rq s = handleRequest_spec net rq s \<and>
   (classify_spec p = StaticAsset) = isStaticAsset p \<and>
   (classify_spec p = ImageClass) = (\<not> isStaticAsset p \<and> isImage p) \<and>
   (classify_spec p = ApiCall) = (\<not> isStaticAsset p \<and> \<not> isImage p \<and> isApiCall p) \<and>
   (classify_spec p = Page) =
     (\<not> isStaticAsset p \<and> \<not> isImage p \<and> \<not> isApiCall p \<and> isPage p) \<and>
   (classify_spec p = Unclassified) =
     (\<not> isStaticAsset p \<and> \<not> isImage p \<and> \<not> isApiCall p \<and> \<not> isPage p) \<and>
   isStaticAsset p = (\<exists>pattern\<in>set static_patterns. sublist pattern p) \<and>
   isImage p = (\<exists>pattern\<in>set cacheFirst_patterns. sublist pattern p) \<and>
   isApiCall p = (\<exists>pattern\<in>set networkFirst_patterns. sublist pattern p) \<and>
   isPage p = (\<exists>pattern\<in>set staleWhileRevalidate_patterns. sublist pattern p)"
proof -
  have dispatch: "handleRequest net rq s = handleRequest_spec net rq s"
    by (simp add: handleRequest_def handleRequest_spec_def classify_spec_def)
  have classes:
    "(classify_spec p = StaticAsset) = isStaticAsset p"
    "(classify_spec p = ImageClass) = (\<not> isStaticAsset p \<and> isImage p)"
    "(classify_spec p = ApiCall) = (\<not> isStaticAsset p \<and> \<not> isImage p \<and> isApiCall p)"
    "(classify_spec p = Page) =
       (\<not> isStaticAsset p \<and> \<not> isImage p \<and> \<not> isApiCall p \<and> isPage p)"
    "(classify_spec p = Unclassified) =
       (\<not> isStaticAsset p \<and> \<not> isImage p \<and> \<not> isApiCall p \<and> \<not> isPage p)"
    by (simp_all add: classify_spec_def)
  have img: "(includes_str p pattern \<or> endsWith p pattern) = sublist pattern p" for pattern
    by (auto simp: includes_str_sublist endsWith_def)
  have patterns:
    "isStaticAsset p = (\<exists>pattern\<in>set static_patterns. sublist pattern p)"
    "isImage p = (\<exists>pattern\<in>set cacheFirst_patterns. sublist pattern p)"
    "isApiCall p = (\<exists>pattern\<in>set networkFirst_patterns. sublist pattern p)"
    "isPage p = (\<exists>pattern\<in>set staleWhileRevalidate_patterns. sublist pattern p)"
    by (simp_all add: isStaticAsset_def isImage_def isApiCall_def isPage_def list_ex_iff
        includes_str_sublist img [unfolded includes_str_sublist])
  show ?thesis
    using dispatch classes patterns by blast
qed

section \<open>Background sync\<close>

lemma failed_requests_replayAll:
  "failed_requests (replayAll net rs s) =
     filter (\<lambda>e. entry_id e \<notin> set (resolved_ids net (length (fetched (trace s))) rs))
       (failed_requests s)"
proof (induction rs arbitrary: s)
  case Nil
  show ?case by simp
next
  case (Cons r rs)
  show ?case
    by (auto simp: Cons.IH fetch_def store_delete_def fetched_append split: option.splits
        intro: filter_cong)
qed

lemma resolved_ids_iff:
  "x \<in> set (resolved_ids net n rs) \<longleftrightarrow>
     (\<exists>i<length rs. x = entry_id (rs ! i) \<and> net (n + i) (entry_url (rs ! i)) \<noteq> None)"
proof (induction rs arbitrary: n)
  case Nil
  show ?case by simp
next
  case (Cons r rs)
  show ?case
    by (auto simp: Cons.IH less_Suc_eq_0_disj split: option.splits)
qed

lemma filter_key_distinct:
  "distinct (map f q) \<Longrightarrow> k < length q \<Longrightarrow> filter (\<lambda>e. f e = f (q ! k)) q = [q ! k]"
proof (induction q arbitrary: k)
  case Nil
  then show ?case by simp
next
  case (Cons e q)
  show ?case
  proof (cases k)
    case 0
    from Cons.prems have "f e \<notin> f ` set q"
      by simp
    then have "\<forall>x\<in>set q. f x \<noteq> f e"
      by (metis image_eqI)
    with 0 show ?thesis
      by (simp add: filter_empty_conv)
  next
    case (Suc j)
    with Cons.prems have j: "j < length q" "distinct (map f q)" "f e \<noteq> f (q ! j)"
      by (auto simp: image_iff)
    with Cons.IH [of j] Suc show ?thesis
      by simp
  qed
qed

text \<open>
  The loop itself, given the records of the queue, does what the retry queue is meant to
  do: it leaves exactly the records whose replay was rejected. When every replay
  resolves the queue ends empty; when the records have distinct identifiers and exactly
  the \<open>k\<close>-th replay is rejected, the queue ends as that record alone, unchanged.
\<close>

lemma replayAll_drains:
  fixes net :: network
  defines "replay_resolves \<equiv> \<lambda>s i.
     net (length (fetched (trace s)) + i) (entry_url (failed_requests s ! i)) \<noteq> None"
  shows
  "((\<forall>i<length (failed_requests s). replay_resolves s i) \<longrightarrow>
      failed_requests (replayAll net (failed_requests s) s) = []) \<and>
   (distinct (map entry_id (failed_requests s)) \<and> k < length (failed_requests s) \<and>
    \<not> replay_resolves s k \<and>
    (\<forall>i<length (failed_requests s). i \<noteq> k \<longrightarrow> replay_resolves s i) \<longrightarrow>
      failed_requests (replayAll net (failed_requests s) s) = [failed_requests s ! k])"
proof (intro conjI impI)
  let ?q = "failed_requests s"
  let ?R = "set (resolved_ids net (length (fetched (trace s))) ?q)"
  {
    assume all: "\<forall>i<length ?q. replay_resolves s i"
    have "entry_id e \<in> ?R" if "e \<in> set ?q" for e
    proof -
      from that obtain i where "i < length ?q" "?q ! i = e"
        by (auto simp: in_set_conv_nth)
      with all show ?thesis
        unfolding resolved_ids_iff replay_resolves_def by blast
    qed
    then show "failed_requests (replayAll net ?q s) = []"
      by (simp add: failed_requests_replayAll filter_empty_conv)
  }
  {
    assume a: "distinct (map entry_id ?q) \<and> k < length ?q \<and> \<not> replay_resolves s k \<and>
        (\<forall>i<length ?q. i \<noteq> k \<longrightarrow> replay_resolves s i)"
    then have d: "distinct (map entry_id ?q)" and k: "k < length ?q" by simp_all
    have "(entry_id e \<notin> ?R) = (entry_id e = entry_id (?q ! k))" if "e \<in> set ?q" for e
    proof -
      from that obtain i where i: "i < length ?q" "?q ! i = e"
        by (auto simp: in_set_conv_nth)
      have inj: "entry_id (?q ! j) = entry_id (?q ! j') \<longleftrightarrow> j = j'"
        if "j < length ?q" "j' < length ?q" for j j'
        using d that by (metis distinct_conv_nth length_map nth_map)
      show ?thesis
      proof (cases "i = k")
        case True
        have "entry_id (?q ! k) \<notin> ?R"
        proof
          assume "entry_id (?q ! k) \<in> ?R"
          then obtain j where j: "j < length ?q" "entry_id (?q ! k) = entry_id (?q ! j)"
            "replay_resolves s j"
            unfolding resolved_ids_iff replay_resolves_def by blast
          with inj [OF k j(1)] have "j = k" by simp
          with j(3) a show False by simp
        qed
        with True i show ?thesis by simp
      next
        case False
        with a i have "replay_resolves s i" by simp
        with i have "entry_id e \<in> ?R"
          unfolding resolved_ids_iff replay_resolves_def by blast
        moreover have "entry_id e \<noteq> entry_id (?q ! k)"
          using inj [OF i(1) k] i(2) False by simp
        ultimately show ?thesis by simp
      qed
    qed
    then have "filter (\<lambda>e. entry_id e \<notin> ?R) ?q = filter (\<lambda>e. entry_id e = entry_id (?q ! k)) ?q"
      by (intro filter_cong) simp_all
    with filter_key_distinct [OF d k]
    show "failed_requests (replayAll net ?q s) = [?q ! k]"
      by (simp add: failed_requests_replayAll)
  }
qed

text \<open>
  Claim C7. The loop of \<open>doBackgroundSync\<close> never runs: iterating the request object
  that \<open>getAll()\<close> returned throws, and the outer \<open>catch\<close> ends the function, so the state
  is left as it was, for every network and state. With one record queued and a network
  that answers every request, no replay is issued and the record stays queued.
\<close>

theorem doBackgroundSync_no_replay:
  "doBackgroundSync net s = s \<and>
   failed_requests queued \<noteq> [] \<and>
   failed_requests (doBackgroundSync online queued) = failed_requests queued \<and>
   fetched (trace (doBackgroundSync online queued)) = []"
  by (simp add: doBackgroundSync_def store_getAll_def queued_def empty_state_def)

end
